theory Spec2Isabelle
  imports Complex_Main
begin

section \<open>Conventions of the embedding\<close>

text \<open>
  The development embeds \<^verbatim>\<open>src/autoregressive/pixelCNN.py\<close>. Tensors are records of their
  dimensions together with an element function; only elements at indices inside the
  dimensions belong to the tensor. Floating-point numbers are idealised as real numbers.
  Exceptions of Python and of the tensor library are values of type \<open>error\<close>; a function
  that can raise returns \<open>error + 'a\<close>. Module state (the stored convolution weights) is
  passed explicitly: a forward function returns its outcome, a value or the error raised,
  together with the module as the call leaves it, so that what a call has overwritten before
  it raises is part of the model.
\<close>

datatype error = RuntimeError | IndexError | ValueError

section \<open>Masks\<close>

text \<open>A mask is a two-dimensional tensor of floats, kept as the list of its rows.\<close>

type_synonym mask = "real list list"

definition shape0 :: "mask \<Rightarrow> nat" where
  "shape0 m = length m"

definition shape1 :: "mask \<Rightarrow> nat" where
  "shape1 m = (case m of [] \<Rightarrow> 0 | r # _ \<Rightarrow> length r)"

text \<open>\<^verbatim>\<open>torch.ones(r, c)\<close>\<close>

definition ones :: "nat \<Rightarrow> nat \<Rightarrow> mask" where
  "ones r c = replicate r (replicate c 1)"

text \<open>\<^verbatim>\<open>mask[a:, :] = 0\<close>: a slice never raises, it is empty when \<open>a\<close> is past the end.\<close>

definition zero_rows_from :: "nat \<Rightarrow> mask \<Rightarrow> mask" where
  "zero_rows_from a m = take a m @ map (\<lambda>r. replicate (length r) 0) (drop a m)"

text \<open>\<^verbatim>\<open>mask[i, :] = 0\<close>: an integer index past the end raises.\<close>

definition zero_row :: "nat \<Rightarrow> mask \<Rightarrow> error + mask" where
  "zero_row i m =
     (if i < length m then Inr (m[i := replicate (length (m ! i)) 0]) else Inl IndexError)"

text \<open>\<^verbatim>\<open>mask[r, a:] = 0\<close>\<close>

definition zero_cols_from :: "nat \<Rightarrow> nat \<Rightarrow> mask \<Rightarrow> error + mask" where
  "zero_cols_from r a m =
     (if r < length m
      then Inr (m[r := take a (m ! r) @ replicate (length (m ! r) - a) 0])
      else Inl IndexError)"

text \<open>\<^verbatim>\<open>mask[r, c] = 0\<close>\<close>

definition zero_elem :: "nat \<Rightarrow> nat \<Rightarrow> mask \<Rightarrow> error + mask" where
  "zero_elem r c m =
     (if r < length m \<and> c < length (m ! r)
      then Inr (m[r := (m ! r)[c := 0]])
      else Inl IndexError)"

text \<open>The mask of \<^verbatim>\<open>VerticalStackConvolution.__init__\<close>.\<close>

definition vertical_mask :: "nat \<Rightarrow> bool \<Rightarrow> error + mask" where
  "vertical_mask kernel_size mask_center =
     (let msk = ones kernel_size kernel_size;
          msk = zero_rows_from (kernel_size div 2 + 1) msk
      in if mask_center then zero_row (kernel_size div 2) msk else Inr msk)"

text \<open>The mask of \<^verbatim>\<open>HorizontalStackConvolution.__init__\<close>.\<close>

definition horizontal_mask :: "nat \<Rightarrow> bool \<Rightarrow> error + mask" where
  "horizontal_mask kernel_size mask_center =
     (case zero_cols_from 0 (kernel_size div 2 + 1) (ones 1 kernel_size) of
        Inl e \<Rightarrow> Inl e
      | Inr msk \<Rightarrow>
          if mask_center then zero_elem 0 (kernel_size div 2) msk else Inr msk)"

definition count_zeros :: "mask \<Rightarrow> nat" where
  "count_zeros m = length (filter (\<lambda>v. v = 0) (concat m))"

section \<open>Tensors\<close>

text \<open>
  A four-dimensional tensor of shape \<open>(B, C, H, W)\<close> and the five-dimensional tensor of
  logits of shape \<open>(B, K, C, H, W)\<close>.
\<close>

record 'a tensor4 =
  dimB :: nat
  dimC :: nat
  dimH :: nat
  dimW :: nat
  elem :: "nat \<Rightarrow> nat \<Rightarrow> nat \<Rightarrow> nat \<Rightarrow> 'a"

record 'a tensor5 =
  dim5B :: nat
  dim5K :: nat
  dim5C :: nat
  dim5H :: nat
  dim5W :: nat
  elem5 :: "nat \<Rightarrow> nat \<Rightarrow> nat \<Rightarrow> nat \<Rightarrow> nat \<Rightarrow> 'a"

text \<open>Applying a function to every element (\<^verbatim>\<open>torch.tanh\<close>, \<^verbatim>\<open>F.elu\<close>, ...).\<close>

definition map_tensor :: "('a \<Rightarrow> 'b) \<Rightarrow> 'a tensor4 \<Rightarrow> 'b tensor4" where
  "map_tensor f x =
     \<lparr>dimB = dimB x, dimC = dimC x, dimH = dimH x, dimW = dimW x,
      elem = (\<lambda>b c h w. f (elem x b c h w))\<rparr>"

text \<open>
  Binary element-wise operations broadcast: two extents are compatible when they are equal
  or one of them is 1, and the operation raises otherwise.
\<close>

definition bdim :: "nat \<Rightarrow> nat \<Rightarrow> nat option" where
  "bdim a b = (if a = b then Some a else if a = 1 then Some b else if b = 1 then Some a else None)"

definition bidx :: "nat \<Rightarrow> nat \<Rightarrow> nat" where
  "bidx d i = (if d = 1 then 0 else i)"

definition broadcast2 ::
  "(real \<Rightarrow> real \<Rightarrow> real) \<Rightarrow> real tensor4 \<Rightarrow> real tensor4 \<Rightarrow> error + real tensor4" where
  "broadcast2 f x y =
     (case (bdim (dimB x) (dimB y), bdim (dimC x) (dimC y),
            bdim (dimH x) (dimH y), bdim (dimW x) (dimW y)) of
        (Some nb, Some nc, Some nh, Some nw) \<Rightarrow>
          Inr \<lparr>dimB = nb, dimC = nc, dimH = nh, dimW = nw,
               elem = (\<lambda>b c h w.
                 f (elem x (bidx (dimB x) b) (bidx (dimC x) c) (bidx (dimH x) h) (bidx (dimW x) w))
                   (elem y (bidx (dimB y) b) (bidx (dimC y) c) (bidx (dimH y) h) (bidx (dimW y) w)))\<rparr>
      | _ \<Rightarrow> Inl RuntimeError)"

definition sigmoid :: "real \<Rightarrow> real" where
  "sigmoid v = 1 / (1 + exp (- v))"

definition elu :: "real \<Rightarrow> real" where
  "elu v = (if 0 < v then v else exp v - 1)"

text \<open>
  \<^verbatim>\<open>a, b = t.chunk(2, dim=1)\<close>: the chunks have \<open>\<lceil>C / 2\<rceil>\<close> channels, the last one what
  remains; with fewer than two chunks the unpacking raises.
\<close>

definition chunk2 :: "real tensor4 \<Rightarrow> error + real tensor4 \<times> real tensor4" where
  "chunk2 x =
     (let n = (dimC x + 1) div 2 in
      if dimC x - n = 0 then Inl ValueError
      else Inr (x\<lparr>dimC := n\<rparr>,
                x\<lparr>dimC := dimC x - n, elem := (\<lambda>b c. elem x b (c + n))\<rparr>))"

text \<open>The gate \<^verbatim>\<open>torch.tanh(val) * torch.sigmoid(gate)\<close> of the two halves of a feature map.\<close>

definition gate :: "real tensor4 \<Rightarrow> error + real tensor4" where
  "gate feat =
     (case chunk2 feat of
        Inl e \<Rightarrow> Inl e
      | Inr (val, gt) \<Rightarrow> broadcast2 (*) (map_tensor tanh val) (map_tensor sigmoid gt))"

section \<open>Convolution\<close>

text \<open>
  \<^verbatim>\<open>nn.Conv2d\<close> with stride 1. The weight has shape
  \<open>(out_channels, in_channels, kernel_h, kernel_w)\<close>. The library draws the initial weight and
  bias at construction; the constructor takes them as an argument.
\<close>

record conv2d =
  in_channels :: nat
  out_channels :: nat
  kernel_h :: nat
  kernel_w :: nat
  dilation :: nat
  padding_h :: int
  padding_w :: int
  weight :: "nat \<Rightarrow> nat \<Rightarrow> nat \<Rightarrow> nat \<Rightarrow> real"
  bias :: "nat \<Rightarrow> real"

type_synonym conv_init = "(nat \<Rightarrow> nat \<Rightarrow> nat \<Rightarrow> nat \<Rightarrow> real) \<times> (nat \<Rightarrow> real)"

definition Conv2d ::
  "nat \<Rightarrow> nat \<Rightarrow> nat \<times> nat \<Rightarrow> int \<times> int \<Rightarrow> nat \<Rightarrow> conv_init \<Rightarrow> conv2d" where
  "Conv2d c_in c_out kernel_size padding dil init =
     \<lparr>in_channels = c_in, out_channels = c_out,
      kernel_h = fst kernel_size, kernel_w = snd kernel_size, dilation = dil,
      padding_h = fst padding, padding_w = snd padding,
      weight = fst init, bias = snd init\<rparr>"

text \<open>The input with its zero padding: row \<open>r\<close> and column \<open>s\<close> count from the padded corner.\<close>

definition padded :: "real tensor4 \<Rightarrow> nat \<Rightarrow> nat \<Rightarrow> nat \<Rightarrow> nat \<Rightarrow> nat \<Rightarrow> nat \<Rightarrow> real" where
  "padded x ph pw b c r s =
     (if ph \<le> r \<and> r < ph + dimH x \<and> pw \<le> s \<and> s < pw + dimW x
      then elem x b c (r - ph) (s - pw) else 0)"

definition conv2d_out :: "conv2d \<Rightarrow> real tensor4 \<Rightarrow> nat \<Rightarrow> nat \<Rightarrow> nat \<Rightarrow> nat \<Rightarrow> real" where
  "conv2d_out cv x b co i j =
     bias cv co +
     (\<Sum>ci\<leftarrow>[0..<in_channels cv]. \<Sum>kh\<leftarrow>[0..<kernel_h cv]. \<Sum>kw\<leftarrow>[0..<kernel_w cv].
        weight cv co ci kh kw *
        padded x (nat (padding_h cv)) (nat (padding_w cv)) b ci
          (i + dilation cv * kh) (j + dilation cv * kw))"

text \<open>
  The call of a convolution raises when the weight has no input channel, when the channels
  of the input are not those of the weight, when a padding is negative, when the dilation
  is not positive, or when the padded input is smaller than the dilated kernel.
\<close>

definition Conv2d_forward :: "conv2d \<Rightarrow> real tensor4 \<Rightarrow> error + real tensor4" where
  "Conv2d_forward cv x =
     (if in_channels cv = 0 \<or> dimC x \<noteq> in_channels cv
         \<or> padding_h cv < 0 \<or> padding_w cv < 0 \<or> dilation cv = 0
         \<or> dimH x + 2 * nat (padding_h cv) < dilation cv * (kernel_h cv - 1) + 1
         \<or> dimW x + 2 * nat (padding_w cv) < dilation cv * (kernel_w cv - 1) + 1
      then Inl RuntimeError
      else Inr \<lparr>dimB = dimB x, dimC = out_channels cv,
                dimH = dimH x + 2 * nat (padding_h cv) - dilation cv * (kernel_h cv - 1),
                dimW = dimW x + 2 * nat (padding_w cv) - dilation cv * (kernel_w cv - 1),
                elem = conv2d_out cv x\<rparr>)"

section \<open>Masked convolution\<close>

text \<open>
  \<^verbatim>\<open>MaskedConvolution\<close>: a convolution and the registered buffer \<^verbatim>\<open>mask\<close>. The keyword
  arguments of the source carry nothing but the dilation, which defaults to 1. The padding
  \<^verbatim>\<open>dilation*(kernel_size[i] - 1)//2\<close> is an integer, negative for a kernel of extent 0.
\<close>

record masked_conv =
  conv :: conv2d
  mask_buffer :: mask

definition MaskedConvolution :: "nat \<Rightarrow> nat \<Rightarrow> mask \<Rightarrow> nat \<Rightarrow> conv_init \<Rightarrow> masked_conv" where
  "MaskedConvolution c_in c_out msk dil init =
     (let kernel_size = (shape0 msk, shape1 msk);
          padding = (int dil * (int (fst kernel_size) - 1) div 2,
                     int dil * (int (snd kernel_size) - 1) div 2)
      in \<lparr>conv = Conv2d c_in c_out kernel_size padding dil init, mask_buffer = msk\<rparr>)"

text \<open>
  \<^verbatim>\<open>self.conv.weight.data *= self.mask\<close> multiplies the stored weight in place by the mask
  of shape \<open>(1, 1, shape0, shape1)\<close>, which broadcasts over the channels, and over a
  spatial extent where the mask has extent 1. The in-place product raises when the mask
  does not broadcast to the shape of the weight, and the weight is then as it was. When
  the product is done the stored weight is overwritten, whether the convolution that follows
  returns or raises.
\<close>

definition mask_at :: "mask \<Rightarrow> nat \<Rightarrow> nat \<Rightarrow> nat \<Rightarrow> nat \<Rightarrow> real" where
  "mask_at m kH kW kh kw =
     m ! (if shape0 m = kH then kh else 0) ! (if shape1 m = kW then kw else 0)"

definition broadcastable :: "mask \<Rightarrow> nat \<Rightarrow> nat \<Rightarrow> bool" where
  "broadcastable m kH kW \<longleftrightarrow>
     (shape0 m = kH \<or> shape0 m = 1) \<and> (shape1 m = kW \<or> shape1 m = 1)"

definition masked_weight ::
  "(nat \<Rightarrow> nat \<Rightarrow> nat \<Rightarrow> nat \<Rightarrow> real) \<Rightarrow> mask \<Rightarrow> nat \<Rightarrow> nat \<Rightarrow> nat \<Rightarrow> nat \<Rightarrow> nat \<Rightarrow> nat \<Rightarrow> real" where
  "masked_weight w m kH kW co ci kh kw =
     (if kh < kH \<and> kw < kW then w co ci kh kw * mask_at m kH kW kh kw else w co ci kh kw)"

definition mul_mask :: "masked_conv \<Rightarrow> masked_conv" where
  "mul_mask L =
     L\<lparr>conv := (conv L)\<lparr>weight :=
         masked_weight (weight (conv L)) (mask_buffer L) (kernel_h (conv L)) (kernel_w (conv L))\<rparr>\<rparr>"

definition MaskedConvolution_forward ::
  "masked_conv \<Rightarrow> real tensor4 \<Rightarrow> (error + real tensor4) \<times> masked_conv" where
  "MaskedConvolution_forward L x =
     (if \<not> broadcastable (mask_buffer L) (kernel_h (conv L)) (kernel_w (conv L))
      then (Inl RuntimeError, L)
      else let L' = mul_mask L in (Conv2d_forward (conv L') x, L'))"

definition VerticalStackConvolution ::
  "nat \<Rightarrow> nat \<Rightarrow> nat \<Rightarrow> bool \<Rightarrow> nat \<Rightarrow> conv_init \<Rightarrow> error + masked_conv" where
  "VerticalStackConvolution c_in c_out kernel_size mask_center dil init =
     (case vertical_mask kernel_size mask_center of
        Inl e \<Rightarrow> Inl e
      | Inr msk \<Rightarrow> Inr (MaskedConvolution c_in c_out msk dil init))"

definition HorizontalStackConvolution ::
  "nat \<Rightarrow> nat \<Rightarrow> nat \<Rightarrow> bool \<Rightarrow> nat \<Rightarrow> conv_init \<Rightarrow> error + masked_conv" where
  "HorizontalStackConvolution c_in c_out kernel_size mask_center dil init =
     (case horizontal_mask kernel_size mask_center of
        Inl e \<Rightarrow> Inl e
      | Inr msk \<Rightarrow> Inr (MaskedConvolution c_in c_out msk dil init))"

section \<open>Gated block\<close>

record gated =
  conv_vert :: masked_conv
  conv_horiz :: masked_conv
  conv_vert_to_horiz :: conv2d
  conv_horiz_1x1 :: conv2d

text \<open>
  \<^verbatim>\<open>GatedMaskedConv(c_in, **kwargs)\<close>: both stacks take the default kernel size 3 and no
  centre mask; the four convolutions are created in the order of the source.
\<close>

definition GatedMaskedConv ::
  "nat \<Rightarrow> nat \<Rightarrow> conv_init \<Rightarrow> conv_init \<Rightarrow> conv_init \<Rightarrow> conv_init \<Rightarrow> error + gated" where
  "GatedMaskedConv c_in dil i0 i1 i2 i3 =
     (case VerticalStackConvolution c_in (2 * c_in) 3 False dil i0 of
        Inl e \<Rightarrow> Inl e
      | Inr cv \<Rightarrow>
     (case HorizontalStackConvolution c_in (2 * c_in) 3 False dil i1 of
        Inl e \<Rightarrow> Inl e
      | Inr ch \<Rightarrow>
          Inr \<lparr>conv_vert = cv, conv_horiz = ch,
               conv_vert_to_horiz = Conv2d (2 * c_in) (2 * c_in) (1, 1) (0, 0) 1 i2,
               conv_horiz_1x1 = Conv2d c_in c_in (1, 1) (0, 0) 1 i3\<rparr>))"

text \<open>
  \<^verbatim>\<open>GatedMaskedConv.forward\<close>. The block is returned as the call leaves it: with the vertical
  stack masked once its convolution was called, and the horizontal stack once its own was.
\<close>

definition GatedMaskedConv_forward ::
  "gated \<Rightarrow> real tensor4 \<Rightarrow> real tensor4 \<Rightarrow> (error + real tensor4 \<times> real tensor4) \<times> gated" where
  "GatedMaskedConv_forward G v_stack h_stack =
     (case MaskedConvolution_forward (conv_vert G) v_stack of
        (r, cv') \<Rightarrow>
     (let G = G\<lparr>conv_vert := cv'\<rparr> in
      case r of
        Inl e \<Rightarrow> (Inl e, G)
      | Inr v_stack_feat \<Rightarrow>
     (case gate v_stack_feat of
        Inl e \<Rightarrow> (Inl e, G)
      | Inr v_stack_out \<Rightarrow>
     (case MaskedConvolution_forward (conv_horiz G) h_stack of
        (r, ch') \<Rightarrow>
     (let G = G\<lparr>conv_horiz := ch'\<rparr> in
      case r of
        Inl e \<Rightarrow> (Inl e, G)
      | Inr h_stack_feat \<Rightarrow>
     (case Conv2d_forward (conv_vert_to_horiz G) v_stack_feat of
        Inl e \<Rightarrow> (Inl e, G)
      | Inr v2h \<Rightarrow>
     (case broadcast2 (+) h_stack_feat v2h of
        Inl e \<Rightarrow> (Inl e, G)
      | Inr h_stack_feat \<Rightarrow>
     (case gate h_stack_feat of
        Inl e \<Rightarrow> (Inl e, G)
      | Inr h_stack_feat \<Rightarrow>
     (case Conv2d_forward (conv_horiz_1x1 G) h_stack_feat of
        Inl e \<Rightarrow> (Inl e, G)
      | Inr h_stack_out \<Rightarrow>
     (case broadcast2 (+) h_stack_out h_stack of
        Inl e \<Rightarrow> (Inl e, G)
      | Inr h_stack_out \<Rightarrow> (Inr (v_stack_out, h_stack_out), G)))))))))))"

section \<open>The model\<close>

record pixelcnn =
  conv_vstack :: masked_conv
  conv_hstack :: masked_conv
  conv_layers :: "gated list"
  conv_out :: conv2d

text \<open>
  The blocks of \<^verbatim>\<open>conv_layers\<close>, one for each dilation of the list; block \<open>n\<close> takes the
  initial values \<open>init n\<close>, ..., \<open>init (n + 3)\<close> of its four convolutions.
\<close>

fun gated_layers :: "nat \<Rightarrow> nat list \<Rightarrow> (nat \<Rightarrow> conv_init) \<Rightarrow> nat \<Rightarrow> error + gated list" where
  "gated_layers c [] init n = Inr []"
| "gated_layers c (d # ds) init n =
     (case GatedMaskedConv c d (init n) (init (n + 1)) (init (n + 2)) (init (n + 3)) of
        Inl e \<Rightarrow> Inl e
      | Inr G \<Rightarrow>
     (case gated_layers c ds init (n + 4) of
        Inl e \<Rightarrow> Inl e
      | Inr Gs \<Rightarrow> Inr (G # Gs)))"

text \<open>\<^verbatim>\<open>PixelCNN.__init__\<close>; \<open>init n\<close> is the initial value of the \<open>n\<close>-th convolution created.\<close>

definition PixelCNN :: "nat \<Rightarrow> nat \<Rightarrow> (nat \<Rightarrow> conv_init) \<Rightarrow> error + pixelcnn" where
  "PixelCNN c_in c_hidden init =
     (case VerticalStackConvolution c_in c_hidden 3 True 1 (init 0) of
        Inl e \<Rightarrow> Inl e
      | Inr vs \<Rightarrow>
     (case HorizontalStackConvolution c_in c_hidden 3 True 1 (init 1) of
        Inl e \<Rightarrow> Inl e
      | Inr hs \<Rightarrow>
     (case gated_layers c_hidden [1, 2, 1, 4, 1, 2, 1] init 2 of
        Inl e \<Rightarrow> Inl e
      | Inr ls \<Rightarrow>
          Inr \<lparr>conv_vstack = vs, conv_hstack = hs, conv_layers = ls,
               conv_out = Conv2d c_hidden (c_in * 256) (1, 1) (0, 0) 1 (init 30)\<rparr>)))"

text \<open>\<^verbatim>\<open>(x.float() / 255.0) * 2 - 1\<close>\<close>

definition rescale :: "int tensor4 \<Rightarrow> real tensor4" where
  "rescale x = map_tensor (\<lambda>v. (real_of_int v / 255) * 2 - 1) x"

text \<open>
  The loop \<^verbatim>\<open>for layer in self.conv_layers\<close>; when a block raises, the blocks after it
  are as they were.
\<close>

fun run_layers ::
  "gated list \<Rightarrow> real tensor4 \<Rightarrow> real tensor4
   \<Rightarrow> (error + real tensor4 \<times> real tensor4) \<times> gated list" where
  "run_layers [] v_stack h_stack = (Inr (v_stack, h_stack), [])"
| "run_layers (layer # layers) v_stack h_stack =
     (case GatedMaskedConv_forward layer v_stack h_stack of
        (Inl e, layer') \<Rightarrow> (Inl e, layer' # layers)
      | (Inr (v_stack', h_stack'), layer') \<Rightarrow>
     (case run_layers layers v_stack' h_stack' of
        (r, layers') \<Rightarrow> (r, layer' # layers')))"

text \<open>
  \<^verbatim>\<open>out.reshape(B, 256, C // 256, H, W)\<close>: the channel \<open>k * (C div 256) + c\<close> becomes class
  \<open>k\<close> of channel \<open>c\<close>; the reshape raises when the numbers of elements differ.
\<close>

definition reshape_logits :: "real tensor4 \<Rightarrow> error + real tensor5" where
  "reshape_logits out =
     (let c = dimC out div 256 in
      if dimB out * dimC out * dimH out * dimW out \<noteq> dimB out * 256 * c * dimH out * dimW out
      then Inl RuntimeError
      else Inr \<lparr>dim5B = dimB out, dim5K = 256, dim5C = c, dim5H = dimH out, dim5W = dimW out,
                elem5 = (\<lambda>b k c' h w. elem out b (k * c + c') h w)\<rparr>)"

text \<open>\<^verbatim>\<open>PixelCNN.forward\<close>\<close>

definition forward :: "pixelcnn \<Rightarrow> int tensor4 \<Rightarrow> (error + real tensor5) \<times> pixelcnn" where
  "forward net x =
     (let x = rescale x in
      case MaskedConvolution_forward (conv_vstack net) x of
        (r, vs') \<Rightarrow>
     (let net = net\<lparr>conv_vstack := vs'\<rparr> in
      case r of
        Inl e \<Rightarrow> (Inl e, net)
      | Inr v_stack \<Rightarrow>
     (case MaskedConvolution_forward (conv_hstack net) x of
        (r, hs') \<Rightarrow>
     (let net = net\<lparr>conv_hstack := hs'\<rparr> in
      case r of
        Inl e \<Rightarrow> (Inl e, net)
      | Inr h_stack \<Rightarrow>
     (case run_layers (conv_layers net) v_stack h_stack of
        (r, layers') \<Rightarrow>
     (let net = net\<lparr>conv_layers := layers'\<rparr> in
      case r of
        Inl e \<Rightarrow> (Inl e, net)
      | Inr (v_stack, h_stack) \<Rightarrow>
     (case Conv2d_forward (conv_out net) (map_tensor elu h_stack) of
        Inl e \<Rightarrow> (Inl e, net)
      | Inr out \<Rightarrow>
     (case reshape_logits out of
        Inl e \<Rightarrow> (Inl e, net)
      | Inr out \<Rightarrow> (Inr out, net)))))))))"

section \<open>Likelihood\<close>

text \<open>
  \<^verbatim>\<open>F.cross_entropy(pred, x, reduction='none')\<close> for logits of shape \<open>(B, K, C, H, W)\<close> and
  integer targets of shape \<open>(B, C, H, W)\<close>: the negative logarithm of the softmax
  probability of the target class. A target equal to the library's default
  \<^verbatim>\<open>ignore_index\<close> -100 contributes 0; any other target outside \<open>[0, K)\<close> raises.
\<close>

definition nll_at :: "real tensor5 \<Rightarrow> nat \<Rightarrow> nat \<Rightarrow> nat \<Rightarrow> nat \<Rightarrow> nat \<Rightarrow> real" where
  "nll_at pred b c h w t =
     - ln (exp (elem5 pred b t c h w) / (\<Sum>k\<leftarrow>[0..<dim5K pred]. exp (elem5 pred b k c h w)))"

definition image_elems :: "'a tensor4 \<Rightarrow> nat \<Rightarrow> 'a list" where
  "image_elems x b =
     concat (map (\<lambda>c. concat (map (\<lambda>h. map (\<lambda>w. elem x b c h w) [0..<dimW x]) [0..<dimH x]))
       [0..<dimC x])"

definition valid_target :: "nat \<Rightarrow> int \<Rightarrow> bool" where
  "valid_target K t \<longleftrightarrow> t = - 100 \<or> (0 \<le> t \<and> t < int K)"

definition cross_entropy :: "real tensor5 \<Rightarrow> int tensor4 \<Rightarrow> error + real tensor4" where
  "cross_entropy pred tgt =
     (if dim5B pred \<noteq> dimB tgt then Inl ValueError
      else if dim5C pred \<noteq> dimC tgt \<or> dim5H pred \<noteq> dimH tgt \<or> dim5W pred \<noteq> dimW tgt
      then Inl RuntimeError
      else if \<not> list_all (\<lambda>b. list_all (valid_target (dim5K pred)) (image_elems tgt b))
                [0..<dimB tgt]
      then Inl IndexError
      else Inr \<lparr>dimB = dimB tgt, dimC = dimC tgt, dimH = dimH tgt, dimW = dimW tgt,
                elem = (\<lambda>b c h w.
                  let t = elem tgt b c h w
                  in if t = - 100 then 0 else nll_at pred b c h w (nat t))\<rparr>)"

text \<open>
  A mean over no element is the float \<^verbatim>\<open>nan\<close>, here \<open>None\<close>; a mean over values one of
  which is \<^verbatim>\<open>nan\<close> is \<^verbatim>\<open>nan\<close>.
\<close>

definition mean :: "real list \<Rightarrow> real option" where
  "mean xs = (if xs = [] then None else Some (sum_list xs / real (length xs)))"

definition mean_nan :: "real option list \<Rightarrow> real option" where
  "mean_nan xs = (if list_all (\<lambda>v. v \<noteq> None) xs then mean (map the xs) else None)"

text \<open>\<^verbatim>\<open>PixelCNN.calc_likelihood\<close>; \<^verbatim>\<open>np.log2(np.exp(1))\<close> is \<open>log 2 (exp 1)\<close>.\<close>

definition calc_likelihood :: "pixelcnn \<Rightarrow> int tensor4 \<Rightarrow> (error + real option) \<times> pixelcnn" where
  "calc_likelihood net x =
     (case forward net x of
        (Inl e, net') \<Rightarrow> (Inl e, net')
      | (Inr pred, net') \<Rightarrow>
     (case cross_entropy pred x of
        Inl e \<Rightarrow> (Inl e, net')
      | Inr nll \<Rightarrow>
          let bpd = map (\<lambda>b. map_option (\<lambda>m. m * log 2 (exp 1)) (mean (image_elems nll b)))
                      [0..<dimB nll]
          in (Inr (mean_nan bpd), net')))"

text \<open>
  The likelihood in the words of the specification: the batch mean over images of the
  per-image mean, across channel, height and width, of the element-wise cross-entropy
  between the logits and the targets, multiplied by \<open>log 2 e\<close>.
\<close>

definition likelihood_spec :: "real tensor5 \<Rightarrow> int tensor4 \<Rightarrow> real" where
  "likelihood_spec pred x =
     (\<Sum>b<dimB x.
        (\<Sum>c<dimC x. \<Sum>h<dimH x. \<Sum>w<dimW x. nll_at pred b c h w (nat (elem x b c h w)))
          / real (dimC x * dimH x * dimW x))
       / real (dimB x) * log 2 (exp 1)"

section \<open>Sampling\<close>

text \<open>
  The random source: \<^verbatim>\<open>torch.multinomial\<close> draws, for each row of probabilities, one index
  from the global generator. A sampler \<open>draw\<close> maps the state of the generator and a row
  of probabilities to the index drawn and the next state; the rows are served in order.
\<close>

type_synonym 'g sampler = "'g \<Rightarrow> real list \<Rightarrow> nat \<times> 'g"

fun multinomial :: "'g sampler \<Rightarrow> 'g \<Rightarrow> real list list \<Rightarrow> nat list \<times> 'g" where
  "multinomial draw g [] = ([], g)"
| "multinomial draw g (p # ps) =
     (case draw g p of (i, g') \<Rightarrow>
        (case multinomial draw g' ps of (js, g'') \<Rightarrow> (i # js, g'')))"

definition softmax :: "real list \<Rightarrow> real list" where
  "softmax ls = map (\<lambda>l. exp l / sum_list (map exp ls)) ls"

text \<open>\<^verbatim>\<open>torch.zeros(img_shape, dtype=torch.long) - 1\<close>\<close>

definition empty_image :: "nat \<times> nat \<times> nat \<times> nat \<Rightarrow> int tensor4" where
  "empty_image img_shape =
     (case img_shape of (B, C, H, W) \<Rightarrow>
        \<lparr>dimB = B, dimC = C, dimH = H, dimW = W, elem = (\<lambda>b c h w. 0 - 1)\<rparr>)"

text \<open>\<^verbatim>\<open>img[:,:,:n,:]\<close>\<close>

definition crop_rows :: "'a tensor4 \<Rightarrow> nat \<Rightarrow> 'a tensor4" where
  "crop_rows img n = img\<lparr>dimH := min n (dimH img)\<rparr>"

text \<open>\<^verbatim>\<open>(img[:,c,h,w] != -1).all().item()\<close>\<close>

definition all_filled :: "int tensor4 \<Rightarrow> nat \<Rightarrow> nat \<Rightarrow> nat \<Rightarrow> bool" where
  "all_filled img c h w = list_all (\<lambda>b. elem img b c h w \<noteq> - 1) [0..<dimB img]"

text \<open>\<^verbatim>\<open>F.softmax(pred[:,:,c,h,w], dim=-1)\<close>, one row for each batch element.\<close>

definition cell_probs :: "real tensor5 \<Rightarrow> nat \<Rightarrow> nat \<Rightarrow> nat \<Rightarrow> real list list" where
  "cell_probs pred c h w =
     map (\<lambda>b. softmax (map (\<lambda>k. elem5 pred b k c h w) [0..<dim5K pred])) [0..<dim5B pred]"

text \<open>\<^verbatim>\<open>img[:,c,h,w] = vals\<close>\<close>

definition write_cell :: "int tensor4 \<Rightarrow> nat \<Rightarrow> nat \<Rightarrow> nat \<Rightarrow> nat list \<Rightarrow> int tensor4" where
  "write_cell img c h w vals =
     img\<lparr>elem := (\<lambda>b c' h' w'.
        if b < dimB img \<and> c' = c \<and> h' = h \<and> w' = w then int (vals ! b)
        else elem img b c' h' w')\<rparr>"

text \<open>
  The body of the innermost loop of \<^verbatim>\<open>PixelCNN.sample\<close>. The state is the image, the
  model and the generator; the outcome is \<open>None\<close> when the body completes and the error
  when it raises. An index past the extent of the image or of the logits raises.
\<close>

definition sample_cell ::
  "'g sampler \<Rightarrow> nat \<Rightarrow> nat \<Rightarrow> nat \<Rightarrow> int tensor4 \<times> pixelcnn \<times> 'g
   \<Rightarrow> error option \<times> int tensor4 \<times> pixelcnn \<times> 'g" where
  "sample_cell draw h w c st =
     (case st of (img, net, g) \<Rightarrow>
        if \<not> (c < dimC img \<and> h < dimH img \<and> w < dimW img) then (Some IndexError, img, net, g)
        else if all_filled img c h w then (None, img, net, g)
        else
          (case forward net (crop_rows img (h + 1)) of
             (Inl e, net') \<Rightarrow> (Some e, img, net', g)
           | (Inr pred, net') \<Rightarrow>
               if \<not> (c < dim5C pred \<and> h < dim5H pred \<and> w < dim5W pred)
               then (Some IndexError, img, net', g)
               else
                 (case multinomial draw g (cell_probs pred c h w) of
                    (vals, g') \<Rightarrow>
                      if length vals \<noteq> dimB img then (Some RuntimeError, img, net', g')
                      else (None, write_cell img c h w vals, net', g'))))"

text \<open>A \<^verbatim>\<open>for\<close> loop over a list whose body may raise; the loop stops where it raises.\<close>

fun for_each :: "('a \<Rightarrow> 's \<Rightarrow> error option \<times> 's) \<Rightarrow> 'a list \<Rightarrow> 's \<Rightarrow> error option \<times> 's" where
  "for_each body [] s = (None, s)"
| "for_each body (a # as) s =
     (case body a s of (Some e, s') \<Rightarrow> (Some e, s') | (None, s') \<Rightarrow> for_each body as s')"

text \<open>
  \<^verbatim>\<open>PixelCNN.sample(img_shape, device, img)\<close>; the device plays no part. The result is the
  outcome together with the image, the model and the generator as the call leaves them;
  when the outcome is \<open>None\<close> the call returns this image.
\<close>

definition sample ::
  "'g sampler \<Rightarrow> pixelcnn \<Rightarrow> nat \<times> nat \<times> nat \<times> nat \<Rightarrow> 'g \<Rightarrow> int tensor4 option
   \<Rightarrow> error option \<times> int tensor4 \<times> pixelcnn \<times> 'g" where
  "sample draw net img_shape g img =
     (case img_shape of (B, C, H, W) \<Rightarrow>
        let img = (case img of None \<Rightarrow> empty_image img_shape | Some im \<Rightarrow> im)
        in for_each (\<lambda>h. for_each (\<lambda>w. for_each (\<lambda>c. sample_cell draw h w c) [0..<C]) [0..<W])
             [0..<H] (img, net, g))"

section \<open>Notions used in the statements\<close>

definition dims4 :: "'a tensor4 \<Rightarrow> nat \<times> nat \<times> nat \<times> nat" where
  "dims4 x = (dimB x, dimC x, dimH x, dimW x)"

definition conv_shape :: "conv2d \<Rightarrow> nat \<times> nat \<times> nat \<times> nat \<times> nat \<times> int \<times> int" where
  "conv_shape cv =
     (in_channels cv, out_channels cv, kernel_h cv, kernel_w cv,
      dilation cv, padding_h cv, padding_w cv)"

text \<open>A mask of zeros and ones, all of whose rows have the same length.\<close>

definition binary_mask :: "mask \<Rightarrow> bool" where
  "binary_mask m \<longleftrightarrow> (\<forall>r\<in>set m. length r = shape1 m \<and> (\<forall>v\<in>set r. v = 0 \<or> v = 1))"

text \<open>The model after the in-place products of one forward pass.\<close>

definition mask_gated :: "gated \<Rightarrow> gated" where
  "mask_gated G = G\<lparr>conv_vert := mul_mask (conv_vert G), conv_horiz := mul_mask (conv_horiz G)\<rparr>"

definition mask_net :: "pixelcnn \<Rightarrow> pixelcnn" where
  "mask_net net =
     net\<lparr>conv_vstack := mul_mask (conv_vstack net), conv_hstack := mul_mask (conv_hstack net),
         conv_layers := map mask_gated (conv_layers net)\<rparr>"

text \<open>
  The shapes of the layers that the constructors build: a vertical and a horizontal stack
  of kernel extent 3 with dilation \<open>d\<close>, a convolution with a kernel of one element, a gated
  block of \<open>c\<close> channels and a model of \<open>c_in\<close> input and \<open>c_hidden\<close> hidden channels.
\<close>

definition vert_layer :: "nat \<Rightarrow> nat \<Rightarrow> bool \<Rightarrow> nat \<Rightarrow> masked_conv \<Rightarrow> bool" where
  "vert_layer ci co centre d L \<longleftrightarrow>
     conv_shape (conv L) = (ci, co, 3, 3, d, int d, int d) \<and> 0 < d \<and>
     mask_buffer L = (if centre then [[1, 1, 1], [0, 0, 0], [0, 0, 0]]
                      else [[1, 1, 1], [1, 1, 1], [0, 0, 0]])"

definition horiz_layer :: "nat \<Rightarrow> nat \<Rightarrow> bool \<Rightarrow> nat \<Rightarrow> masked_conv \<Rightarrow> bool" where
  "horiz_layer ci co centre d L \<longleftrightarrow>
     conv_shape (conv L) = (ci, co, 1, 3, d, 0, int d) \<and> 0 < d \<and>
     mask_buffer L = (if centre then [[1, 0, 0]] else [[1, 1, 0]])"

definition point_conv :: "nat \<Rightarrow> nat \<Rightarrow> conv2d \<Rightarrow> bool" where
  "point_conv ci co cv \<longleftrightarrow> conv_shape cv = (ci, co, 1, 1, 1, 0, 0)"

definition gated_block :: "nat \<Rightarrow> gated \<Rightarrow> bool" where
  "gated_block c G \<longleftrightarrow>
     (\<exists>d. vert_layer c (2 * c) False d (conv_vert G) \<and>
          horiz_layer c (2 * c) False d (conv_horiz G)) \<and>
     point_conv (2 * c) (2 * c) (conv_vert_to_horiz G) \<and>
     point_conv c c (conv_horiz_1x1 G)"

definition pixel_model :: "nat \<Rightarrow> nat \<Rightarrow> pixelcnn \<Rightarrow> bool" where
  "pixel_model c_in c_hidden net \<longleftrightarrow>
     vert_layer c_in c_hidden True 1 (conv_vstack net) \<and>
     horiz_layer c_in c_hidden True 1 (conv_hstack net) \<and>
     (\<forall>G\<in>set (conv_layers net). gated_block c_hidden G) \<and>
     point_conv c_hidden (c_in * 256) (conv_out net)"

text \<open>
  Two feature maps agree, for batch element \<open>b\<close>, on the first \<open>n\<close> rows, and on the first
  \<open>m\<close> columns of row \<open>h\<close>.
\<close>

definition eq_rows :: "nat \<Rightarrow> nat \<Rightarrow> real tensor4 \<Rightarrow> real tensor4 \<Rightarrow> bool" where
  "eq_rows b n x y \<longleftrightarrow>
     (\<forall>c<dimC x. \<forall>i<n. \<forall>j<dimW x. elem x b c i j = elem y b c i j)"

definition eq_cols :: "nat \<Rightarrow> nat \<Rightarrow> nat \<Rightarrow> real tensor4 \<Rightarrow> real tensor4 \<Rightarrow> bool" where
  "eq_cols b h m x y \<longleftrightarrow> (\<forall>c<dimC x. \<forall>j<m. elem x b c h j = elem y b c h j)"

text \<open>
  The raster-then-channel order of the cells \<open>(h, w, c)\<close>: rows first, then columns, then
  channels.
\<close>

definition precedes :: "nat \<times> nat \<times> nat \<Rightarrow> nat \<times> nat \<times> nat \<Rightarrow> bool" where
  "precedes p q \<longleftrightarrow>
     (case p of (h', w', c') \<Rightarrow> case q of (h, w, c) \<Rightarrow>
        h' < h \<or> (h' = h \<and> (w' < w \<or> (w' = w \<and> c' < c))))"

text \<open>
  A sampler is sound when the index it draws is an index of the row of probabilities.
\<close>

definition sampler_ok :: "'g sampler \<Rightarrow> bool" where
  "sampler_ok draw \<longleftrightarrow> (\<forall>g ps. ps \<noteq> [] \<longrightarrow> fst (draw g ps) < length ps)"

text \<open>
  The entries of a seed image are the sentinel -1 or intensities; those of a filled image
  are intensities.
\<close>

definition seed_image :: "int tensor4 \<Rightarrow> bool" where
  "seed_image img \<longleftrightarrow>
     (\<forall>b<dimB img. \<forall>c<dimC img. \<forall>h<dimH img. \<forall>w<dimW img.
        elem img b c h w = - 1 \<or> (0 \<le> elem img b c h w \<and> elem img b c h w \<le> 255))"

definition filled_image :: "int tensor4 \<Rightarrow> bool" where
  "filled_image img \<longleftrightarrow>
     (\<forall>b<dimB img. \<forall>c<dimC img. \<forall>h<dimH img. \<forall>w<dimW img.
        0 \<le> elem img b c h w \<and> elem img b c h w \<le> 255)"

text \<open>The cells of an image in the order of the three nested loops of the sampler.\<close>

definition cells :: "nat \<Rightarrow> nat \<Rightarrow> nat \<Rightarrow> (nat \<times> nat \<times> nat) list" where
  "cells H W C =
     concat (map (\<lambda>h. concat (map (\<lambda>w. map (\<lambda>c. (h, w, c)) [0..<C]) [0..<W])) [0..<H])"

text \<open>
  The cells, in the order of the loops, at which an image holds the sentinel -1 in some
  batch element: those that the sampler has to fill.
\<close>

definition unfilled_cells :: "int tensor4 \<Rightarrow> nat \<Rightarrow> nat \<Rightarrow> nat \<Rightarrow> (nat \<times> nat \<times> nat) list" where
  "unfilled_cells img H W C = filter (\<lambda>(h, w, c). \<not> all_filled img c h w) (cells H W C)"

section \<open>Example inputs\<close>

text \<open>
  Initial values (every weight 1, every bias 0) and images of one channel with two rows and
  two columns that differ in their last cell only.
\<close>

definition unit_init :: "nat \<Rightarrow> conv_init" where
  "unit_init n = ((\<lambda>co ci kh kw. 1), (\<lambda>co. 0))"

definition image2x2 :: "int \<Rightarrow> int tensor4" where
  "image2x2 v =
     \<lparr>dimB = 1, dimC = 1, dimH = 2, dimW = 2,
      elem = (\<lambda>b c h w. if h = 1 \<and> w = 1 then v else 0)\<rparr>"

text \<open>A sampler that always draws class 0 and counts its draws, and a feature map of ones.\<close>

definition first_class :: "nat sampler" where
  "first_class g ps = (0, g + 1)"

definition feature2x2 :: "real tensor4" where
  "feature2x2 = \<lparr>dimB = 1, dimC = 1, dimH = 2, dimW = 2, elem = (\<lambda>b c h w. 1)\<rparr>"

text \<open>A vertical stack of one channel with the mask of kernel extent 3.\<close>

definition example_layer :: masked_conv where
  "example_layer = MaskedConvolution 1 1 [[1, 1, 1], [1, 1, 1], [0, 0, 0]] 1 (unit_init 0)"

section \<open>Closed forms of the masks\<close>

lemma count_zeros_append:
  "count_zeros (a @ b) = count_zeros a + count_zeros b"
  by (simp add: count_zeros_def)

lemma count_zeros_Cons:
  "count_zeros (r # m) = length (filter (\<lambda>v. v = 0) r) + count_zeros m"
  by (simp add: count_zeros_def)

lemma count_zeros_replicate_ones:
  "count_zeros (replicate n (replicate k 1)) = 0"
  by (induction n) (simp_all add: count_zeros_def)

lemma count_zeros_replicate_zeros:
  "count_zeros (replicate n (replicate k 0)) = n * k"
  by (induction n) (simp_all add: count_zeros_def)

lemma update_after_replicate:
  "(x # replicate i x @ ys)[i := z] = replicate i x @ z # ys"
  by (induction i) simp_all

lemma nth_after_replicate:
  "(x # replicate i x @ ys) ! i = x"
  by (induction i) simp_all

lemma half_bounds:
  assumes "0 < (k::nat)"
  shows "k div 2 < k" and "min (Suc (k div 2)) k = Suc (k div 2)"
  using assms by (simp_all add: min_def) presburger

lemma vertical_mask_plain:
  assumes "0 < k"
  shows "vertical_mask k False =
     Inr (replicate (Suc (k div 2)) (replicate k 1) @ replicate (k - Suc (k div 2)) (replicate k 0))"
  using half_bounds [OF assms]
  by (simp add: vertical_mask_def ones_def zero_rows_from_def)

lemma vertical_mask_center:
  assumes "0 < k"
  shows "vertical_mask k True =
     Inr (replicate (k div 2) (replicate k 1) @ replicate (Suc (k - Suc (k div 2))) (replicate k 0))"
  using half_bounds [OF assms]
  by (simp add: vertical_mask_def ones_def zero_rows_from_def zero_row_def
      update_after_replicate nth_after_replicate del: list_update.simps)

lemma horizontal_mask_plain:
  assumes "0 < k"
  shows "horizontal_mask k False =
     Inr [replicate (Suc (k div 2)) 1 @ replicate (k - Suc (k div 2)) 0]"
  using half_bounds [OF assms]
  by (simp add: horizontal_mask_def ones_def zero_cols_from_def)

lemma horizontal_mask_center:
  assumes "0 < k"
  shows "horizontal_mask k True =
     Inr [replicate (k div 2) 1 @ replicate (Suc (k - Suc (k div 2))) 0]"
  using half_bounds [OF assms]
  by (simp add: horizontal_mask_def ones_def zero_cols_from_def zero_elem_def
      update_after_replicate list_update_code del: list_update.simps)

lemma vmask3c: "vertical_mask 3 True = Inr [[1, 1, 1], [0, 0, 0], [0, 0, 0]]"
  by code_simp

lemma vmask3: "vertical_mask 3 False = Inr [[1, 1, 1], [1, 1, 1], [0, 0, 0]]"
  by code_simp

lemma hmask3c: "horizontal_mask 3 True = Inr [[1, 0, 0]]"
  by code_simp

lemma hmask3: "horizontal_mask 3 False = Inr [[1, 1, 0]]"
  by code_simp

section \<open>Convolutions and element-wise operations\<close>

lemma sum_list_cong_upt:
  "(\<And>i. i < n \<Longrightarrow> f i = g i) \<Longrightarrow> (\<Sum>i\<leftarrow>[0..<n]. f i) = (\<Sum>i\<leftarrow>[0..<n]. (g i :: real))"
  by (rule arg_cong [where f = sum_list]) simp

lemma conv2d_out_cong:
  assumes "\<And>ci kh kw. ci < in_channels cv \<Longrightarrow> kh < kernel_h cv \<Longrightarrow> kw < kernel_w cv \<Longrightarrow>
             weight cv co ci kh kw = 0 \<or>
             padded x (nat (padding_h cv)) (nat (padding_w cv)) b ci
               (i + dilation cv * kh) (j + dilation cv * kw)
           = padded x' (nat (padding_h cv)) (nat (padding_w cv)) b ci
               (i + dilation cv * kh) (j + dilation cv * kw)"
  shows "conv2d_out cv x b co i j = conv2d_out cv x' b co i j"
  unfolding conv2d_out_def
  apply (rule arg_cong [where f = "\<lambda>v. bias cv co + v"])
  apply (rule sum_list_cong_upt)
  apply (rule sum_list_cong_upt)
  apply (rule sum_list_cong_upt)
  using assms by fastforce

lemma bidx_in_range: "i < d \<Longrightarrow> bidx d i = i"
  by (simp add: bidx_def)

lemma broadcast2_same:
  assumes "dims4 x = (B, C, H, W)" and "dims4 y = (B, C, H, W)"
  shows "\<exists>z. broadcast2 f x y = Inr z \<and> dims4 z = (B, C, H, W) \<and>
           (\<forall>b<B. \<forall>c<C. \<forall>i<H. \<forall>j<W. elem z b c i j = f (elem x b c i j) (elem y b c i j))"
  using assms by (simp add: broadcast2_def dims4_def bdim_def bidx_in_range)

lemma gate_char:
  assumes "dims4 x = (B, 2 * c, H, W)" and "0 < c"
  shows "\<exists>z. gate x = Inr z \<and> dims4 z = (B, c, H, W) \<and>
           (\<forall>b<B. \<forall>ch<c. \<forall>i<H. \<forall>j<W.
              elem z b ch i j = tanh (elem x b ch i j) * sigmoid (elem x b (ch + c) i j))"
proof -
  from assms have n: "(dimC x + 1) div 2 = c" "dimC x - c = c"
    by (simp_all add: dims4_def)
  with assms show ?thesis
    by (simp add: gate_def chunk2_def Let_def broadcast2_def dims4_def bdim_def
        bidx_in_range map_tensor_def)
qed

lemma Conv2d_forward_same:
  assumes "conv_shape cv = (ci, co, kh, kw, d, int ph, int pw)"
    and "2 * ph = d * (kh - 1)" and "2 * pw = d * (kw - 1)"
    and "dims4 x = (B, ci, H, W)" and "0 < ci" and "0 < H" and "0 < W" and "0 < d"
  shows "Conv2d_forward cv x =
           Inr \<lparr>dimB = B, dimC = co, dimH = H, dimW = W, elem = conv2d_out cv x\<rparr>"
  using assms by (simp add: Conv2d_forward_def conv_shape_def dims4_def)

lemma conv_shape_mul_mask [simp]: "conv_shape (conv (mul_mask L)) = conv_shape (conv L)"
  by (simp add: mul_mask_def conv_shape_def)

lemma mask_buffer_mul_mask [simp]: "mask_buffer (mul_mask L) = mask_buffer L"
  by (simp add: mul_mask_def)

lemma vert_layer_forward:
  assumes "vert_layer ci co centre d L" and "dims4 x = (B, ci, H, W)"
    and "0 < ci" and "0 < H" and "0 < W"
  shows "MaskedConvolution_forward L x =
           (Inr \<lparr>dimB = B, dimC = co, dimH = H, dimW = W,
                 elem = conv2d_out (conv (mul_mask L)) x\<rparr>, mul_mask L)"
proof -
  from assms(1) have sh: "conv_shape (conv L) = (ci, co, 3, 3, d, int d, int d)" and d: "0 < d"
    by (simp_all add: vert_layer_def)
  then have k: "kernel_h (conv L) = 3" "kernel_w (conv L) = 3"
    by (simp_all add: conv_shape_def)
  from assms(1) have bc: "broadcastable (mask_buffer L) 3 3"
    by (simp add: vert_layer_def broadcastable_def shape0_def shape1_def)
  have "Conv2d_forward (conv (mul_mask L)) x =
          Inr \<lparr>dimB = B, dimC = co, dimH = H, dimW = W, elem = conv2d_out (conv (mul_mask L)) x\<rparr>"
    by (rule Conv2d_forward_same [where ci = ci and kh = 3 and kw = 3 and d = d and ph = d and pw = d])
      (use sh d assms in simp_all)
  with bc k show ?thesis
    by (simp add: MaskedConvolution_forward_def Let_def)
qed

lemma horiz_layer_forward:
  assumes "horiz_layer ci co centre d L" and "dims4 x = (B, ci, H, W)"
    and "0 < ci" and "0 < H" and "0 < W"
  shows "MaskedConvolution_forward L x =
           (Inr \<lparr>dimB = B, dimC = co, dimH = H, dimW = W,
                 elem = conv2d_out (conv (mul_mask L)) x\<rparr>, mul_mask L)"
proof -
  from assms(1) have sh: "conv_shape (conv L) = (ci, co, 1, 3, d, int 0, int d)" and d: "0 < d"
    by (simp_all add: horiz_layer_def)
  then have k: "kernel_h (conv L) = 1" "kernel_w (conv L) = 3"
    by (simp_all add: conv_shape_def)
  from assms(1) have bc: "broadcastable (mask_buffer L) 1 3"
    by (simp add: horiz_layer_def broadcastable_def shape0_def shape1_def)
  have "Conv2d_forward (conv (mul_mask L)) x =
          Inr \<lparr>dimB = B, dimC = co, dimH = H, dimW = W, elem = conv2d_out (conv (mul_mask L)) x\<rparr>"
    by (rule Conv2d_forward_same [where ci = ci and kh = 1 and kw = 3 and d = d and ph = 0 and pw = d])
      (use sh d assms in simp_all)
  with bc k show ?thesis
    by (simp add: MaskedConvolution_forward_def Let_def)
qed

lemma point_conv_forward:
  assumes "point_conv ci co cv" and "dims4 x = (B, ci, H, W)"
    and "0 < ci" and "0 < H" and "0 < W"
  shows "Conv2d_forward cv x =
           Inr \<lparr>dimB = B, dimC = co, dimH = H, dimW = W, elem = conv2d_out cv x\<rparr>"
  by (rule Conv2d_forward_same [where ci = ci and kh = 1 and kw = 1 and d = 1 and ph = 0 and pw = 0])
    (use assms in \<open>simp_all add: point_conv_def\<close>)

section \<open>Locality of the masked convolutions\<close>

text \<open>The masked weights vanish where the mask does.\<close>

lemma vert_weight_zero:
  assumes "vert_layer ci co centre d L" and "kh < 3" and "kw < 3"
    and "kh = 2 \<or> (centre \<and> kh = 1)"
  shows "weight (conv (mul_mask L)) c c' kh kw = 0"
proof -
  from assms(1) have k: "kernel_h (conv L) = 3" "kernel_w (conv L) = 3"
    by (simp_all add: vert_layer_def conv_shape_def)
  from assms have "mask_at (mask_buffer L) 3 3 kh kw = 0"
    by (auto simp: vert_layer_def mask_at_def shape0_def shape1_def less_Suc_eq
        numeral_3_eq_3 numeral_2_eq_2)
  with k assms(2,3) show ?thesis
    by (simp add: mul_mask_def masked_weight_def)
qed

lemma horiz_weight_zero:
  assumes "horiz_layer ci co centre d L" and "kw < 3"
    and "kw = 2 \<or> (centre \<and> kw = 1)"
  shows "weight (conv (mul_mask L)) c c' 0 kw = 0"
proof -
  from assms(1) have k: "kernel_h (conv L) = 1" "kernel_w (conv L) = 3"
    by (simp_all add: horiz_layer_def conv_shape_def)
  from assms have "mask_at (mask_buffer L) 1 3 0 kw = 0"
    by (auto simp: horiz_layer_def mask_at_def shape0_def shape1_def less_Suc_eq
        numeral_3_eq_3 numeral_2_eq_2)
  with k assms(2) show ?thesis
    by (simp add: mul_mask_def masked_weight_def)
qed

lemma vert_local:
  assumes L: "vert_layer ci co centre d L"
    and dims: "dimC x = ci" "dimW x' = dimW x"
    and rows: "eq_rows b n x x'"
    and i: "if centre then i \<le> n else i < n" and n: "i < dimH x" "i < dimH x'"
  shows "conv2d_out (conv (mul_mask L)) x b c i j = conv2d_out (conv (mul_mask L)) x' b c i j"
proof (rule conv2d_out_cong)
  fix c' kh kw
  assume c': "c' < in_channels (conv (mul_mask L))"
    and kh: "kh < kernel_h (conv (mul_mask L))" and kw: "kw < kernel_w (conv (mul_mask L))"
  let ?cv = "conv (mul_mask L)"
  from L have sh: "in_channels ?cv = ci" "kernel_h ?cv = 3" "kernel_w ?cv = 3"
    "dilation ?cv = d" "padding_h ?cv = int d" "padding_w ?cv = int d" and d: "0 < d"
    by (simp_all add: vert_layer_def conv_shape_def mul_mask_def)
  show "weight ?cv c c' kh kw = 0 \<or>
        padded x (nat (padding_h ?cv)) (nat (padding_w ?cv)) b c'
          (i + dilation ?cv * kh) (j + dilation ?cv * kw)
      = padded x' (nat (padding_h ?cv)) (nat (padding_w ?cv)) b c'
          (i + dilation ?cv * kh) (j + dilation ?cv * kw)"
  proof (cases "kh = 2 \<or> (centre \<and> kh = 1)")
    case True
    with vert_weight_zero [OF L] kh kw sh show ?thesis by simp
  next
    case False
    with kh sh have khc: "kh = 0 \<or> (\<not> centre \<and> kh = 1)" by auto
    have "padded x d d b c' (i + d * kh) (j + d * kw) = padded x' d d b c' (i + d * kh) (j + d * kw)"
      using khc rows i n d c' sh dims
      by (auto simp: padded_def eq_rows_def split: if_splits)
    with sh show ?thesis by simp
  qed
qed

lemma horiz_local:
  assumes L: "horiz_layer ci co centre d L"
    and dims: "dimC x = ci" "dimW x' = dimW x"
    and cols: "eq_cols b h m x x'"
    and j: "if centre then j \<le> m else j < m" and h: "h < dimH x" "h < dimH x'"
  shows "conv2d_out (conv (mul_mask L)) x b c h j = conv2d_out (conv (mul_mask L)) x' b c h j"
proof (rule conv2d_out_cong)
  fix c' kh kw
  assume c': "c' < in_channels (conv (mul_mask L))"
    and kh: "kh < kernel_h (conv (mul_mask L))" and kw: "kw < kernel_w (conv (mul_mask L))"
  let ?cv = "conv (mul_mask L)"
  from L have sh: "in_channels ?cv = ci" "kernel_h ?cv = 1" "kernel_w ?cv = 3"
    "dilation ?cv = d" "padding_h ?cv = 0" "padding_w ?cv = int d" and d: "0 < d"
    by (simp_all add: horiz_layer_def conv_shape_def mul_mask_def)
  from kh sh have kh0: "kh = 0" by simp
  show "weight ?cv c c' kh kw = 0 \<or>
        padded x (nat (padding_h ?cv)) (nat (padding_w ?cv)) b c'
          (h + dilation ?cv * kh) (j + dilation ?cv * kw)
      = padded x' (nat (padding_h ?cv)) (nat (padding_w ?cv)) b c'
          (h + dilation ?cv * kh) (j + dilation ?cv * kw)"
  proof (cases "kw = 2 \<or> (centre \<and> kw = 1)")
    case True
    with horiz_weight_zero [OF L] kw sh kh0 show ?thesis by simp
  next
    case False
    with kw sh have kwc: "kw = 0 \<or> (\<not> centre \<and> kw = 1)" by auto
    have "padded x 0 d b c' h (j + d * kw) = padded x' 0 d b c' h (j + d * kw)"
      using kwc cols j h d c' sh dims
      by (auto simp: padded_def eq_cols_def split: if_splits)
    with sh kh0 show ?thesis by simp
  qed
qed

lemma point_local:
  assumes cv: "point_conv ci co cv"
    and dims: "dimC x = ci" "dimW x' = dimW x"
    and eq: "\<forall>c'<ci. elem x b c' i j = elem x' b c' i j"
    and i: "i < dimH x" "i < dimH x'"
  shows "conv2d_out cv x b c i j = conv2d_out cv x' b c i j"
proof (rule conv2d_out_cong)
  fix c' kh kw
  assume "c' < in_channels cv" "kh < kernel_h cv" "kw < kernel_w cv"
  with cv eq i dims
  show "weight cv c c' kh kw = 0 \<or>
        padded x (nat (padding_h cv)) (nat (padding_w cv)) b c'
          (i + dilation cv * kh) (j + dilation cv * kw)
      = padded x' (nat (padding_h cv)) (nat (padding_w cv)) b c'
          (i + dilation cv * kh) (j + dilation cv * kw)"
    by (simp add: point_conv_def conv_shape_def padded_def)
qed

section \<open>The gated block and the forward pass\<close>

lemma dims4_record [simp]:
  "dims4 \<lparr>dimB = B, dimC = C, dimH = H, dimW = W, elem = f\<rparr> = (B, C, H, W)"
  by (simp add: dims4_def)

lemma dims4_D:
  "dims4 x = (B, C, H, W) \<Longrightarrow> dimB x = B \<and> dimC x = C \<and> dimH x = H \<and> dimW x = W"
  by (simp add: dims4_def)

lemma gated_forward_structure:
  assumes G: "gated_block c G" and c: "0 < c"
    and v: "dims4 v = (B, c, H, W)" and hh: "dims4 hh = (B, c, H, W)"
    and H: "0 < H" and W: "0 < W"
  obtains vf vo hf v2h s g1 h1 ho where
    "GatedMaskedConv_forward G v hh = (Inr (vo, ho), mask_gated G)"
    "dims4 vf = (B, 2 * c, H, W)" "elem vf = conv2d_out (conv (mul_mask (conv_vert G))) v"
    "dims4 vo = (B, c, H, W)"
    "\<forall>b<B. \<forall>ch<c. \<forall>i<H. \<forall>j<W.
       elem vo b ch i j = tanh (elem vf b ch i j) * sigmoid (elem vf b (ch + c) i j)"
    "dims4 hf = (B, 2 * c, H, W)" "elem hf = conv2d_out (conv (mul_mask (conv_horiz G))) hh"
    "dims4 v2h = (B, 2 * c, H, W)" "elem v2h = conv2d_out (conv_vert_to_horiz G) vf"
    "dims4 s = (B, 2 * c, H, W)"
    "\<forall>b<B. \<forall>ch<2 * c. \<forall>i<H. \<forall>j<W. elem s b ch i j = elem hf b ch i j + elem v2h b ch i j"
    "dims4 g1 = (B, c, H, W)"
    "\<forall>b<B. \<forall>ch<c. \<forall>i<H. \<forall>j<W.
       elem g1 b ch i j = tanh (elem s b ch i j) * sigmoid (elem s b (ch + c) i j)"
    "dims4 h1 = (B, c, H, W)" "elem h1 = conv2d_out (conv_horiz_1x1 G) g1"
    "dims4 ho = (B, c, H, W)"
    "\<forall>b<B. \<forall>ch<c. \<forall>i<H. \<forall>j<W. elem ho b ch i j = elem h1 b ch i j + elem hh b ch i j"
proof -
  from G obtain d where Lv: "vert_layer c (2 * c) False d (conv_vert G)"
    and Lh: "horiz_layer c (2 * c) False d (conv_horiz G)"
    and Pv: "point_conv (2 * c) (2 * c) (conv_vert_to_horiz G)"
    and P1: "point_conv c c (conv_horiz_1x1 G)"
    by (auto simp: gated_block_def)
  from c have c2: "0 < 2 * c" by simp
  define vf where "vf = \<lparr>dimB = B, dimC = 2 * c, dimH = H, dimW = W,
                          elem = conv2d_out (conv (mul_mask (conv_vert G))) v\<rparr>"
  define hf where "hf = \<lparr>dimB = B, dimC = 2 * c, dimH = H, dimW = W,
                          elem = conv2d_out (conv (mul_mask (conv_horiz G))) hh\<rparr>"
  define v2h where "v2h = \<lparr>dimB = B, dimC = 2 * c, dimH = H, dimW = W,
                          elem = conv2d_out (conv_vert_to_horiz G) vf\<rparr>"
  have e1: "MaskedConvolution_forward (conv_vert G) v = (Inr vf, mul_mask (conv_vert G))"
    unfolding vf_def by (rule vert_layer_forward [OF Lv v c H W])
  have dvf: "dims4 vf = (B, 2 * c, H, W)" by (simp add: vf_def)
  from gate_char [OF dvf c] obtain vo where
    e2: "gate vf = Inr vo" and dvo: "dims4 vo = (B, c, H, W)"
    and pvo: "\<forall>b<B. \<forall>ch<c. \<forall>i<H. \<forall>j<W.
       elem vo b ch i j = tanh (elem vf b ch i j) * sigmoid (elem vf b (ch + c) i j)"
    by blast
  have e3: "MaskedConvolution_forward (conv_horiz G) hh = (Inr hf, mul_mask (conv_horiz G))"
    unfolding hf_def by (rule horiz_layer_forward [OF Lh hh c H W])
  have dhf: "dims4 hf = (B, 2 * c, H, W)" by (simp add: hf_def)
  have e4: "Conv2d_forward (conv_vert_to_horiz G) vf = Inr v2h"
    unfolding v2h_def by (rule point_conv_forward [OF Pv dvf c2 H W])
  have dv2h: "dims4 v2h = (B, 2 * c, H, W)" by (simp add: v2h_def)
  from broadcast2_same [OF dhf dv2h, of "(+)"] obtain s where
    e5: "broadcast2 (+) hf v2h = Inr s" and ds: "dims4 s = (B, 2 * c, H, W)"
    and ps: "\<forall>b<B. \<forall>ch<2 * c. \<forall>i<H. \<forall>j<W. elem s b ch i j = elem hf b ch i j + elem v2h b ch i j"
    by blast
  from gate_char [OF ds c] obtain g1 where
    e6: "gate s = Inr g1" and dg1: "dims4 g1 = (B, c, H, W)"
    and pg1: "\<forall>b<B. \<forall>ch<c. \<forall>i<H. \<forall>j<W.
       elem g1 b ch i j = tanh (elem s b ch i j) * sigmoid (elem s b (ch + c) i j)"
    by blast
  define h1 where "h1 = \<lparr>dimB = B, dimC = c, dimH = H, dimW = W,
                          elem = conv2d_out (conv_horiz_1x1 G) g1\<rparr>"
  have e7: "Conv2d_forward (conv_horiz_1x1 G) g1 = Inr h1"
    unfolding h1_def by (rule point_conv_forward [OF P1 dg1 c H W])
  have dh1: "dims4 h1 = (B, c, H, W)" by (simp add: h1_def)
  from broadcast2_same [OF dh1 hh, of "(+)"] obtain ho where
    e8: "broadcast2 (+) h1 hh = Inr ho" and dho: "dims4 ho = (B, c, H, W)"
    and pho: "\<forall>b<B. \<forall>ch<c. \<forall>i<H. \<forall>j<W. elem ho b ch i j = elem h1 b ch i j + elem hh b ch i j"
    by blast
  have "GatedMaskedConv_forward G v hh = (Inr (vo, ho), mask_gated G)"
    by (simp add: GatedMaskedConv_forward_def Let_def e1 e2 e3 e4 e5 e6 e7 e8 mask_gated_def)
  moreover have "elem vf = conv2d_out (conv (mul_mask (conv_vert G))) v" by (simp add: vf_def)
  moreover have "elem hf = conv2d_out (conv (mul_mask (conv_horiz G))) hh" by (simp add: hf_def)
  moreover have "elem v2h = conv2d_out (conv_vert_to_horiz G) vf" by (simp add: v2h_def)
  moreover have "elem h1 = conv2d_out (conv_horiz_1x1 G) g1" by (simp add: h1_def)
  ultimately show thesis
    using that dvf dvo pvo dhf dv2h ds ps dg1 pg1 dh1 dho pho by blast
qed

lemma gated_forward_agrees:
  assumes G: "gated_block c G" and c: "0 < c"
    and v: "dims4 v = (B, c, H, W)" and hh: "dims4 hh = (B, c, H, W)"
    and v': "dims4 v' = (B, c, H', W)" and hh': "dims4 hh' = (B, c, H', W)"
    and b: "b < B" and h: "h < H" "h < H'" and m: "m \<le> W" and W: "0 < W"
    and rows: "eq_rows b (Suc h) v v'" and cols: "eq_cols b h m hh hh'"
    and run: "GatedMaskedConv_forward G v hh = (Inr (vo, ho), G1)"
    and run': "GatedMaskedConv_forward G v' hh' = (Inr (vo', ho'), G2)"
  shows "eq_rows b (Suc h) vo vo' \<and> eq_cols b h m ho ho'"
proof -
  from G obtain d where Lv: "vert_layer c (2 * c) False d (conv_vert G)"
    and Lh: "horiz_layer c (2 * c) False d (conv_horiz G)"
    and Pv: "point_conv (2 * c) (2 * c) (conv_vert_to_horiz G)"
    and P1: "point_conv c c (conv_horiz_1x1 G)"
    by (auto simp: gated_block_def)
  from h have H: "0 < H" and H': "0 < H'" by simp_all
  show ?thesis
  proof -
    obtain vf vo0 hf v2h s g1 h1 ho0 where
      r: "GatedMaskedConv_forward G v hh = (Inr (vo0, ho0), mask_gated G)"
      and vf: "dims4 vf = (B, 2 * c, H, W)" "elem vf = conv2d_out (conv (mul_mask (conv_vert G))) v"
      and vo0: "dims4 vo0 = (B, c, H, W)"
        "\<forall>b<B. \<forall>ch<c. \<forall>i<H. \<forall>j<W.
           elem vo0 b ch i j = tanh (elem vf b ch i j) * sigmoid (elem vf b (ch + c) i j)"
      and hf: "dims4 hf = (B, 2 * c, H, W)" "elem hf = conv2d_out (conv (mul_mask (conv_horiz G))) hh"
      and v2h: "dims4 v2h = (B, 2 * c, H, W)" "elem v2h = conv2d_out (conv_vert_to_horiz G) vf"
      and s: "dims4 s = (B, 2 * c, H, W)"
        "\<forall>b<B. \<forall>ch<2 * c. \<forall>i<H. \<forall>j<W. elem s b ch i j = elem hf b ch i j + elem v2h b ch i j"
      and g1: "dims4 g1 = (B, c, H, W)"
        "\<forall>b<B. \<forall>ch<c. \<forall>i<H. \<forall>j<W.
           elem g1 b ch i j = tanh (elem s b ch i j) * sigmoid (elem s b (ch + c) i j)"
      and h1: "dims4 h1 = (B, c, H, W)" "elem h1 = conv2d_out (conv_horiz_1x1 G) g1"
      and ho0: "dims4 ho0 = (B, c, H, W)"
        "\<forall>b<B. \<forall>ch<c. \<forall>i<H. \<forall>j<W. elem ho0 b ch i j = elem h1 b ch i j + elem hh b ch i j"
      by (rule gated_forward_structure [OF G c v hh H W])
    obtain vf' vo0' hf' v2h' s' g1' h1' ho0' where
      r': "GatedMaskedConv_forward G v' hh' = (Inr (vo0', ho0'), mask_gated G)"
      and vf': "dims4 vf' = (B, 2 * c, H', W)" "elem vf' = conv2d_out (conv (mul_mask (conv_vert G))) v'"
      and vo0': "dims4 vo0' = (B, c, H', W)"
        "\<forall>b<B. \<forall>ch<c. \<forall>i<H'. \<forall>j<W.
           elem vo0' b ch i j = tanh (elem vf' b ch i j) * sigmoid (elem vf' b (ch + c) i j)"
      and hf': "dims4 hf' = (B, 2 * c, H', W)" "elem hf' = conv2d_out (conv (mul_mask (conv_horiz G))) hh'"
      and v2h': "dims4 v2h' = (B, 2 * c, H', W)" "elem v2h' = conv2d_out (conv_vert_to_horiz G) vf'"
      and s': "dims4 s' = (B, 2 * c, H', W)"
        "\<forall>b<B. \<forall>ch<2 * c. \<forall>i<H'. \<forall>j<W. elem s' b ch i j = elem hf' b ch i j + elem v2h' b ch i j"
      and g1': "dims4 g1' = (B, c, H', W)"
        "\<forall>b<B. \<forall>ch<c. \<forall>i<H'. \<forall>j<W.
           elem g1' b ch i j = tanh (elem s' b ch i j) * sigmoid (elem s' b (ch + c) i j)"
      and h1': "dims4 h1' = (B, c, H', W)" "elem h1' = conv2d_out (conv_horiz_1x1 G) g1'"
      and ho0': "dims4 ho0' = (B, c, H', W)"
        "\<forall>b<B. \<forall>ch<c. \<forall>i<H'. \<forall>j<W. elem ho0' b ch i j = elem h1' b ch i j + elem hh' b ch i j"
      by (rule gated_forward_structure [OF G c v' hh' H' W])
    from r run have same: "vo = vo0" "ho = ho0" by simp_all
    from r' run' have same': "vo' = vo0'" "ho' = ho0'" by simp_all
    note dv = dims4_D [OF v] and dv' = dims4_D [OF v'] 
      and dhh = dims4_D [OF hh] and dhh' = dims4_D [OF hh']
    have A: "elem vf b ch i j = elem vf' b ch i j" if "i \<le> h" for ch i j
      unfolding vf vf'
      by (rule vert_local [OF Lv _ _ rows]) (use that h dv dv' in simp_all)
    have B1: "elem vo0 b ch i j = elem vo0' b ch i j" if "ch < c" "i \<le> h" "j < W" for ch i j
      using that vo0(2) vo0'(2) b h A by simp
    have C: "elem hf b ch h j = elem hf' b ch h j" if "j < m" for ch j
      unfolding hf hf'
      by (rule horiz_local [OF Lh _ _ cols]) (use that h dhh dhh' in simp_all)
    have D: "elem v2h b ch h j = elem v2h' b ch h j" for ch j
      unfolding v2h v2h'
      by (rule point_local [OF Pv]) (use A h dims4_D [OF vf(1)] dims4_D [OF vf'(1)] in simp_all)
    have E: "elem s b ch h j = elem s' b ch h j" if "ch < 2 * c" "j < m" for ch j
      using that s(2) s'(2) b h m C D by simp
    have F: "elem g1 b ch h j = elem g1' b ch h j" if "ch < c" "j < m" for ch j
      using that g1(2) g1'(2) b h m E by simp
    have G': "elem h1 b ch h j = elem h1' b ch h j" if "j < m" for ch j
      unfolding h1 h1'
      by (rule point_local [OF P1]) (use that F h dims4_D [OF g1(1)] dims4_D [OF g1'(1)] in simp_all)
    have I: "elem ho0 b ch h j = elem ho0' b ch h j" if "ch < c" "j < m" for ch j
    proof -
      from cols that dhh have "elem hh b ch h j = elem hh' b ch h j"
        by (simp add: eq_cols_def)
      with that ho0(2) ho0'(2) b h m G' show ?thesis by simp
    qed
    from B1 I show ?thesis
      unfolding same same' eq_rows_def eq_cols_def
      using dims4_D [OF vo0(1)] dims4_D [OF ho0(1)] by simp
  qed
qed

lemma run_layers_ok:
  assumes "\<forall>G\<in>set Gs. gated_block c G" and "0 < c"
    and "dims4 v = (B, c, H, W)" and "dims4 hh = (B, c, H, W)" and "0 < H" and "0 < W"
  shows "\<exists>vo ho. run_layers Gs v hh = (Inr (vo, ho), map mask_gated Gs) \<and>
           dims4 vo = (B, c, H, W) \<and> dims4 ho = (B, c, H, W)"
  using assms
proof (induction Gs arbitrary: v hh)
  case Nil
  then show ?case by simp
next
  case (Cons G Gs)
  from Cons.prems have G: "gated_block c G" by simp
  obtain vo ho where
    r: "GatedMaskedConv_forward G v hh = (Inr (vo, ho), mask_gated G)"
    and d: "dims4 vo = (B, c, H, W)" "dims4 ho = (B, c, H, W)"
    using gated_forward_structure [OF G Cons.prems(2-6)] by metis
  from Cons.prems have "\<forall>G\<in>set Gs. gated_block c G" by simp
  from Cons.IH [OF this Cons.prems(2) d Cons.prems(5,6)] r show ?case
    by auto
qed

lemma run_layers_agrees:
  assumes "\<forall>G\<in>set Gs. gated_block c G" and "0 < c"
    and "dims4 v = (B, c, H, W)" and "dims4 hh = (B, c, H, W)"
    and "dims4 v' = (B, c, H', W)" and "dims4 hh' = (B, c, H', W)"
    and "b < B" and "h < H" and "h < H'" and "m \<le> W" and "0 < W"
    and "eq_rows b (Suc h) v v'" and "eq_cols b h m hh hh'"
    and "run_layers Gs v hh = (Inr (vo, ho), G1)"
    and "run_layers Gs v' hh' = (Inr (vo', ho'), G2)"
  shows "eq_rows b (Suc h) vo vo' \<and> eq_cols b h m ho ho'"
  using assms
proof (induction Gs arbitrary: v hh v' hh' G1 G2)
  case Nil
  then show ?case by simp
next
  case (Cons G Gs)
  from Cons.prems have G: "gated_block c G" and Gs: "\<forall>G\<in>set Gs. gated_block c G"
    by simp_all
  from Cons.prems have H: "0 < H" and H': "0 < H'" by simp_all
  obtain v1 h1 where
    r: "GatedMaskedConv_forward G v hh = (Inr (v1, h1), mask_gated G)"
    and d: "dims4 v1 = (B, c, H, W)" "dims4 h1 = (B, c, H, W)"
    using gated_forward_structure [OF G Cons.prems(2,3,4) H Cons.prems(11)] by metis
  obtain v1' h1' where
    r': "GatedMaskedConv_forward G v' hh' = (Inr (v1', h1'), mask_gated G)"
    and d': "dims4 v1' = (B, c, H', W)" "dims4 h1' = (B, c, H', W)"
    using gated_forward_structure [OF G Cons.prems(2,5,6) H' Cons.prems(11)] by metis
  have step: "eq_rows b (Suc h) v1 v1' \<and> eq_cols b h m h1 h1'"
    by (rule gated_forward_agrees [OF G Cons.prems(2-13) r r'])
  from Cons.prems(14) r obtain G1' where t: "run_layers Gs v1 h1 = (Inr (vo, ho), G1')"
    by (auto split: prod.splits sum.splits)
  from Cons.prems(15) r' obtain G2' where t': "run_layers Gs v1' h1' = (Inr (vo', ho'), G2')"
    by (auto split: prod.splits sum.splits)
  from step show ?case
    by (intro Cons.IH [OF Gs Cons.prems(2) d d' Cons.prems(7-11) _ _ t t']) simp_all
qed

lemma forward_structure:
  assumes net: "pixel_model c_in c_hidden net" and c: "0 < c_hidden" and ci: "0 < c_in"
    and x: "dims4 x = (B, c_in, H, W)" and H: "0 < H" and W: "0 < W"
  obtains v0 h0 vs hs out where
    "forward net x = (Inr out, mask_net net)"
    "dims4 v0 = (B, c_hidden, H, W)"
    "elem v0 = conv2d_out (conv (mul_mask (conv_vstack net))) (rescale x)"
    "dims4 h0 = (B, c_hidden, H, W)"
    "elem h0 = conv2d_out (conv (mul_mask (conv_hstack net))) (rescale x)"
    "run_layers (conv_layers net) v0 h0 = (Inr (vs, hs), map mask_gated (conv_layers net))"
    "dims4 vs = (B, c_hidden, H, W)" "dims4 hs = (B, c_hidden, H, W)"
    "dim5B out = B" "dim5K out = 256" "dim5C out = c_in" "dim5H out = H" "dim5W out = W"
    "elem5 out = (\<lambda>b k c i j. conv2d_out (conv_out net) (map_tensor elu hs) b (k * c_in + c) i j)"
proof -
  from net have Lv: "vert_layer c_in c_hidden True 1 (conv_vstack net)"
    and Lh: "horiz_layer c_in c_hidden True 1 (conv_hstack net)"
    and Gs: "\<forall>G\<in>set (conv_layers net). gated_block c_hidden G"
    and Po: "point_conv c_hidden (c_in * 256) (conv_out net)"
    by (simp_all add: pixel_model_def)
  have xr: "dims4 (rescale x) = (B, c_in, H, W)"
    using x by (simp add: rescale_def map_tensor_def dims4_def)
  define v0 where "v0 = \<lparr>dimB = B, dimC = c_hidden, dimH = H, dimW = W,
      elem = conv2d_out (conv (mul_mask (conv_vstack net))) (rescale x)\<rparr>"
  define h0 where "h0 = \<lparr>dimB = B, dimC = c_hidden, dimH = H, dimW = W,
      elem = conv2d_out (conv (mul_mask (conv_hstack net))) (rescale x)\<rparr>"
  have e1: "MaskedConvolution_forward (conv_vstack net) (rescale x) = (Inr v0, mul_mask (conv_vstack net))"
    unfolding v0_def by (rule vert_layer_forward [OF Lv xr ci H W])
  have e2: "MaskedConvolution_forward (conv_hstack net) (rescale x) = (Inr h0, mul_mask (conv_hstack net))"
    unfolding h0_def by (rule horiz_layer_forward [OF Lh xr ci H W])
  have dv0: "dims4 v0 = (B, c_hidden, H, W)" and dh0: "dims4 h0 = (B, c_hidden, H, W)"
    by (simp_all add: v0_def h0_def)
  from run_layers_ok [OF Gs c dv0 dh0 H W] obtain vs hs where
    e3: "run_layers (conv_layers net) v0 h0 = (Inr (vs, hs), map mask_gated (conv_layers net))"
    and dvs: "dims4 vs = (B, c_hidden, H, W)" and dhs: "dims4 hs = (B, c_hidden, H, W)"
    by blast
  have de: "dims4 (map_tensor elu hs) = (B, c_hidden, H, W)"
    using dhs by (simp add: map_tensor_def dims4_def)
  define o4 where "o4 = \<lparr>dimB = B, dimC = c_in * 256, dimH = H, dimW = W,
      elem = conv2d_out (conv_out net) (map_tensor elu hs)\<rparr>"
  have e4: "Conv2d_forward (conv_out net) (map_tensor elu hs) = Inr o4"
    unfolding o4_def by (rule point_conv_forward [OF Po de c H W])
  define out where "out = \<lparr>dim5B = B, dim5K = 256, dim5C = c_in, dim5H = H, dim5W = W,
      elem5 = (\<lambda>b k c i j. conv2d_out (conv_out net) (map_tensor elu hs) b (k * c_in + c) i j)\<rparr>"
  have e5: "reshape_logits o4 = Inr out"
    by (simp add: reshape_logits_def o4_def out_def)
  have "forward net x = (Inr out, mask_net net)"
    by (simp add: forward_def Let_def e1 e2 e3 e4 e5 mask_net_def)
  moreover have "elem v0 = conv2d_out (conv (mul_mask (conv_vstack net))) (rescale x)"
    "elem h0 = conv2d_out (conv (mul_mask (conv_hstack net))) (rescale x)"
    by (simp_all add: v0_def h0_def)
  moreover have "dim5B out = B" "dim5K out = 256" "dim5C out = c_in" "dim5H out = H" "dim5W out = W"
    "elem5 out = (\<lambda>b k c i j. conv2d_out (conv_out net) (map_tensor elu hs) b (k * c_in + c) i j)"
    by (simp_all add: out_def)
  ultimately show thesis
    using that [of out v0 h0 vs hs] dv0 dh0 e3 dvs dhs by blast
qed

lemma forward_agrees:
  assumes net: "pixel_model c_in c_hidden net" and c: "0 < c_hidden" and ci: "0 < c_in"
    and x: "dims4 x = (B, c_in, H, W)" and x': "dims4 x' = (B, c_in, H', W)"
    and b: "b < B" and h: "h < H" "h < H'" and w: "w < W"
    and px: "\<forall>c<c_in. \<forall>i j. j < W \<longrightarrow> i < h \<or> (i = h \<and> j < w) \<longrightarrow>
               elem x b c i j = elem x' b c i j"
    and run: "forward net x = (Inr out, n1)" and run': "forward net x' = (Inr out', n2)"
  shows "elem5 out b k c h w = elem5 out' b k c h w"
proof -
  from net have Lv: "vert_layer c_in c_hidden True 1 (conv_vstack net)"
    and Lh: "horiz_layer c_in c_hidden True 1 (conv_hstack net)"
    and Gs: "\<forall>G\<in>set (conv_layers net). gated_block c_hidden G"
    and Po: "point_conv c_hidden (c_in * 256) (conv_out net)"
    by (simp_all add: pixel_model_def)
  from h w have H: "0 < H" and H': "0 < H'" and W: "0 < W" by simp_all
  obtain v0 h0 vs hs o1 where
    r: "forward net x = (Inr o1, mask_net net)"
    and v0: "dims4 v0 = (B, c_hidden, H, W)"
      "elem v0 = conv2d_out (conv (mul_mask (conv_vstack net))) (rescale x)"
    and h0: "dims4 h0 = (B, c_hidden, H, W)"
      "elem h0 = conv2d_out (conv (mul_mask (conv_hstack net))) (rescale x)"
    and ls: "run_layers (conv_layers net) v0 h0 = (Inr (vs, hs), map mask_gated (conv_layers net))"
    and hs: "dims4 hs = (B, c_hidden, H, W)"
    and o1: "elem5 o1 = (\<lambda>b k c i j. conv2d_out (conv_out net) (map_tensor elu hs) b (k * c_in + c) i j)"
    by (rule forward_structure [OF net c ci x H W])
  obtain v0' h0' vs' hs' o1' where
    r': "forward net x' = (Inr o1', mask_net net)"
    and v0': "dims4 v0' = (B, c_hidden, H', W)"
      "elem v0' = conv2d_out (conv (mul_mask (conv_vstack net))) (rescale x')"
    and h0': "dims4 h0' = (B, c_hidden, H', W)"
      "elem h0' = conv2d_out (conv (mul_mask (conv_hstack net))) (rescale x')"
    and ls': "run_layers (conv_layers net) v0' h0' = (Inr (vs', hs'), map mask_gated (conv_layers net))"
    and hs': "dims4 hs' = (B, c_hidden, H', W)"
    and o1': "elem5 o1' = (\<lambda>b k c i j. conv2d_out (conv_out net) (map_tensor elu hs') b (k * c_in + c) i j)"
    by (rule forward_structure [OF net c ci x' H' W])
  from r run have o: "out = o1" by simp
  from r' run' have o': "out' = o1'" by simp
  note dx = dims4_D [OF x] and dx' = dims4_D [OF x']
  have rx: "dimC (rescale x) = c_in" "dimW (rescale x) = W" "dimH (rescale x) = H"
    "dimW (rescale x') = W" "dimH (rescale x') = H'"
    using dx dx' by (simp_all add: rescale_def map_tensor_def)
  have rows0: "eq_rows b h (rescale x) (rescale x')"
    using px dx by (simp add: eq_rows_def rescale_def map_tensor_def)
  have cols0: "eq_cols b h w (rescale x) (rescale x')"
    using px dx w by (simp add: eq_cols_def rescale_def map_tensor_def)
  have A: "eq_rows b (Suc h) v0 v0'"
    unfolding eq_rows_def v0 v0'
  proof (intro allI impI)
    fix ch i j assume "i < Suc h"
    then show "conv2d_out (conv (mul_mask (conv_vstack net))) (rescale x) b ch i j
             = conv2d_out (conv (mul_mask (conv_vstack net))) (rescale x') b ch i j"
      by (intro vert_local [OF Lv _ _ rows0]) (use h rx in simp_all)
  qed
  have B0: "eq_cols b h (Suc w) h0 h0'"
    unfolding eq_cols_def h0 h0'
  proof (intro allI impI)
    fix ch j assume "j < Suc w"
    then show "conv2d_out (conv (mul_mask (conv_hstack net))) (rescale x) b ch h j
             = conv2d_out (conv (mul_mask (conv_hstack net))) (rescale x') b ch h j"
      by (intro horiz_local [OF Lh _ _ cols0]) (use h rx in simp_all)
  qed
  from w have sw: "Suc w \<le> W" by simp
  have "eq_rows b (Suc h) vs vs' \<and> eq_cols b h (Suc w) hs hs'"
    by (rule run_layers_agrees [OF Gs c v0(1) h0(1) v0'(1) h0'(1) b h sw W A B0 ls ls'])
  then have fin: "\<forall>ch<c_hidden. elem hs b ch h w = elem hs' b ch h w"
    using dims4_D [OF hs] by (simp add: eq_cols_def)
  have "conv2d_out (conv_out net) (map_tensor elu hs) b (k * c_in + c) h w
      = conv2d_out (conv_out net) (map_tensor elu hs') b (k * c_in + c) h w"
    by (rule point_local [OF Po])
      (use fin h dims4_D [OF hs] dims4_D [OF hs'] in \<open>simp_all add: map_tensor_def\<close>)
  then show ?thesis
    unfolding o o' o1 o1' by simp
qed

section \<open>The constructors build models of the expected shape\<close>

lemma MaskedConvolution_shape:
  "conv_shape (conv (MaskedConvolution ci co m d init)) =
     (ci, co, shape0 m, shape1 m, d,
      int d * (int (shape0 m) - 1) div 2, int d * (int (shape1 m) - 1) div 2)"
  "mask_buffer (MaskedConvolution ci co m d init) = m"
  by (simp_all add: MaskedConvolution_def Conv2d_def conv_shape_def Let_def)

lemma VerticalStack_layer:
  assumes "0 < d"
  shows "\<exists>L. VerticalStackConvolution ci co 3 centre d init = Inr L \<and> vert_layer ci co centre d L"
  using assms
  by (cases centre)
    (simp_all add: VerticalStackConvolution_def vmask3 vmask3c vert_layer_def
      MaskedConvolution_shape shape0_def shape1_def)

lemma HorizontalStack_layer:
  assumes "0 < d"
  shows "\<exists>L. HorizontalStackConvolution ci co 3 centre d init = Inr L \<and> horiz_layer ci co centre d L"
  using assms
  by (cases centre)
    (simp_all add: HorizontalStackConvolution_def hmask3 hmask3c horiz_layer_def
      MaskedConvolution_shape shape0_def shape1_def)

lemma Conv2d_point: "point_conv ci co (Conv2d ci co (1, 1) (0, 0) 1 init)"
  by (simp add: point_conv_def conv_shape_def Conv2d_def)

lemma GatedMaskedConv_block:
  assumes "0 < d"
  shows "\<exists>G. GatedMaskedConv c d i0 i1 i2 i3 = Inr G \<and> gated_block c G"
proof -
  from VerticalStack_layer [OF assms] obtain Lv where
    v: "VerticalStackConvolution c (2 * c) 3 False d i0 = Inr Lv" "vert_layer c (2 * c) False d Lv"
    by blast
  from HorizontalStack_layer [OF assms] obtain Lh where
    h: "HorizontalStackConvolution c (2 * c) 3 False d i1 = Inr Lh" "horiz_layer c (2 * c) False d Lh"
    by blast
  from v h show ?thesis
    by (auto simp: GatedMaskedConv_def gated_block_def point_conv_def conv_shape_def Conv2d_def)
qed

lemma gated_layers_blocks:
  assumes "\<forall>d\<in>set ds. 0 < d"
  shows "\<exists>Gs. gated_layers c ds init n = Inr Gs \<and> length Gs = length ds \<and>
           (\<forall>G\<in>set Gs. gated_block c G)"
  using assms
proof (induction ds arbitrary: n)
  case Nil
  then show ?case by simp
next
  case (Cons d ds)
  then have "0 < d" by simp
  from GatedMaskedConv_block [OF this] obtain G where
    "GatedMaskedConv c d (init n) (init (n + 1)) (init (n + 2)) (init (n + 3)) = Inr G"
    "gated_block c G" by blast
  moreover from Cons.prems have "\<forall>d\<in>set ds. 0 < d" by simp
  from Cons.IH [OF this, of "n + 4"] obtain Gs where
    "gated_layers c ds init (n + 4) = Inr Gs" "length Gs = length ds" "\<forall>G\<in>set Gs. gated_block c G"
    by blast
  ultimately show ?case by simp
qed

lemma PixelCNN_total:
  "\<exists>net. PixelCNN c_in c_hidden init = Inr net \<and> pixel_model c_in c_hidden net"
proof -
  from VerticalStack_layer [OF zero_less_one, of c_in c_hidden True "init 0"] obtain Lv where
    v: "VerticalStackConvolution c_in c_hidden 3 True 1 (init 0) = Inr Lv"
       "vert_layer c_in c_hidden True 1 Lv"
    by blast
  from HorizontalStack_layer [OF zero_less_one, of c_in c_hidden True "init 1"] obtain Lh where
    h: "HorizontalStackConvolution c_in c_hidden 3 True 1 (init 1) = Inr Lh"
       "horiz_layer c_in c_hidden True 1 Lh"
    by blast
  have "\<forall>d\<in>set [1, 2, 1, 4, 1, 2, 1::nat]. 0 < d" by simp
  from gated_layers_blocks [OF this] obtain Gs where
    g: "gated_layers c_hidden [1, 2, 1, 4, 1, 2, 1] init 2 = Inr Gs"
       "\<forall>G\<in>set Gs. gated_block c_hidden G"
    by blast
  have "point_conv c_hidden (c_in * 256) (Conv2d c_hidden (c_in * 256) (1, 1) (0, 0) 1 (init 30))"
    by (rule Conv2d_point)
  with v h g show ?thesis
    unfolding PixelCNN_def pixel_model_def by (simp del: gated_layers.simps One_nat_def)
qed

lemma PixelCNN_pixel_model:
  "PixelCNN c_in c_hidden init = Inr net \<Longrightarrow> pixel_model c_in c_hidden net"
  using PixelCNN_total [of c_in c_hidden init] by auto

section \<open>The forward pass returns\<close>

lemma forward_ok:
  assumes "pixel_model c_in c_hidden net" and "0 < c_hidden" and "0 < c_in"
    and "dims4 x = (B, c_in, H, W)" and "0 < H" and "0 < W"
  shows "\<exists>out. forward net x = (Inr out, mask_net net) \<and>
           dim5B out = B \<and> dim5K out = 256 \<and> dim5C out = c_in \<and> dim5H out = H \<and> dim5W out = W"
proof (rule forward_structure [OF assms])
  fix v0 h0 vs hs out
  assume "forward net x = (Inr out, mask_net net)"
    "dim5B out = B" "dim5K out = 256" "dim5C out = c_in" "dim5H out = H" "dim5W out = W"
  then show ?thesis by (intro exI [of _ out] conjI)
qed

lemma precedes_simps:
  "precedes (h', w', c') (h, w, c) \<longleftrightarrow> h' < h \<or> (h' = h \<and> (w' < w \<or> (w' = w \<and> c' < c)))"
  by (simp add: precedes_def)

section \<open>The sampling loop\<close>

lemma vert_layer_mul_mask: "vert_layer ci co centre d L \<Longrightarrow> vert_layer ci co centre d (mul_mask L)"
  by (simp add: vert_layer_def)

lemma horiz_layer_mul_mask: "horiz_layer ci co centre d L \<Longrightarrow> horiz_layer ci co centre d (mul_mask L)"
  by (simp add: horiz_layer_def)

lemma gated_block_mask_gated: "gated_block c G \<Longrightarrow> gated_block c (mask_gated G)"
  by (auto simp: gated_block_def mask_gated_def intro: vert_layer_mul_mask horiz_layer_mul_mask)

lemma pixel_model_mask_net: "pixel_model ci ch net \<Longrightarrow> pixel_model ci ch (mask_net net)"
  by (simp add: pixel_model_def mask_net_def vert_layer_mul_mask horiz_layer_mul_mask
      gated_block_mask_gated)

lemma multinomial_length:
  "multinomial draw g ps = (vals, g') \<Longrightarrow> length vals = length ps"
  by (induction ps arbitrary: g vals g') (auto split: prod.splits)

lemma multinomial_range:
  assumes "sampler_ok draw" and "\<forall>p\<in>set ps. p \<noteq> []" and "multinomial draw g ps = (vals, g')"
  shows "\<forall>i<length ps. vals ! i < length (ps ! i)"
  using assms(2,3)
proof (induction ps arbitrary: g vals g')
  case Nil
  then show ?case by simp
next
  case (Cons p ps)
  obtain i g1 where d: "draw g p = (i, g1)" by (cases "draw g p")
  obtain js g2 where m: "multinomial draw g1 ps = (js, g2)" by (cases "multinomial draw g1 ps")
  from Cons.prems d m have v: "vals = i # js" by simp
  from Cons.prems have "p \<noteq> []" by simp
  with assms(1) have "fst (draw g p) < length p" by (simp add: sampler_ok_def)
  with d have i: "i < length p" by simp
  from Cons.prems have "\<forall>p\<in>set ps. p \<noteq> []" by simp
  from Cons.IH [OF this m] have "\<forall>k<length ps. js ! k < length (ps ! k)" .
  with i v show ?case by (auto simp: nth_Cons split: nat.splits)
qed

lemma cell_probs_shape:
  "length (cell_probs pred c h w) = dim5B pred"
  "\<forall>p\<in>set (cell_probs pred c h w). length p = dim5K pred"
  by (auto simp: cell_probs_def softmax_def)

lemma all_filled_iff: "all_filled img c h w \<longleftrightarrow> (\<forall>b<dimB img. elem img b c h w \<noteq> - 1)"
  by (auto simp: all_filled_def list_all_iff)

lemma sample_cell_skip:
  assumes "c < dimC img" "h < dimH img" "w < dimW img" "all_filled img c h w"
  shows "sample_cell draw h w c (img, net, g) = (None, img, net, g)"
  using assms by (simp add: sample_cell_def)

lemma sample_cell_draw:
  assumes net: "pixel_model ci ch net" and ch: "0 < ch"
    and img: "dims4 img = (B, ci, H, W)" and c: "c < ci" and h: "h < H" and w: "w < W"
    and nf: "\<not> all_filled img c h w"
  shows "\<exists>pred vals g'.
           forward net (crop_rows img (h + 1)) = (Inr pred, mask_net net) \<and>
           multinomial draw g (cell_probs pred c h w) = (vals, g') \<and>
           length vals = B \<and> dim5K pred = 256 \<and> dim5B pred = B \<and>
           sample_cell draw h w c (img, net, g) = (None, write_cell img c h w vals, mask_net net, g')"
proof -
  have xc: "dims4 (crop_rows img (h + 1)) = (B, ci, h + 1, W)"
    using img h by (simp add: crop_rows_def dims4_def)
  have H1: "0 < h + 1" and W: "0 < W" using w by simp_all
  from c have ci: "0 < ci" by simp
  from forward_ok [OF net ch ci xc H1 W] obtain pred where
    f: "forward net (crop_rows img (h + 1)) = (Inr pred, mask_net net)"
    and d: "dim5B pred = B" "dim5K pred = 256" "dim5C pred = ci" "dim5H pred = h + 1" "dim5W pred = W"
    by (elim exE conjE)
  obtain vals g' where m: "multinomial draw g (cell_probs pred c h w) = (vals, g')"
    by (cases "multinomial draw g (cell_probs pred c h w)")
  from multinomial_length [OF m] d have l: "length vals = B"
    by (simp add: cell_probs_shape)
  from img have dd: "dimB img = B" "dimC img = ci" "dimH img = H" "dimW img = W"
    by (simp_all add: dims4_def)
  from f have f': "forward net (crop_rows img (Suc h)) = (Inr pred, mask_net net)" by simp
  from m have m': "multinomial draw g (cell_probs pred c h w) = (vals, g')" .
  have "sample_cell draw h w c (img, net, g) = (None, write_cell img c h w vals, mask_net net, g')"
    using nf c h w d l by (simp add: sample_cell_def dd f' m')
  with f m l d show ?thesis by blast
qed

lemma write_cell_simps [simp]:
  "dims4 (write_cell img c h w vals) = dims4 img"
  "elem (write_cell img c h w vals) b c' h' w' =
     (if b < dimB img \<and> c' = c \<and> h' = h \<and> w' = w then int (vals ! b) else elem img b c' h' w')"
  by (simp_all add: write_cell_def dims4_def)

lemma sample_cell_total:
  assumes net: "pixel_model ci ch net" and ch: "0 < ch"
    and img: "dims4 img = (B, ci, H, W)" and c: "c < ci" and h: "h < H" and w: "w < W"
  shows "\<exists>img' net' g'.
           sample_cell draw h w c (img, net, g) = (None, img', net', g') \<and>
           dims4 img' = (B, ci, H, W) \<and> pixel_model ci ch net'"
proof (cases "all_filled img c h w")
  case True
  from img have "dimC img = ci" "dimH img = H" "dimW img = W" by (simp_all add: dims4_def)
  with c h w True have "sample_cell draw h w c (img, net, g) = (None, img, net, g)"
    by (intro sample_cell_skip) simp_all
  with img net show ?thesis by blast
next
  case False
  from sample_cell_draw [OF net ch img c h w False, of draw g] obtain vals g' where
    "sample_cell draw h w c (img, net, g) = (None, write_cell img c h w vals, mask_net net, g')"
    by (elim exE conjE)
  moreover have "dims4 (write_cell img c h w vals) = (B, ci, H, W)" using img by simp
  moreover note pixel_model_mask_net [OF net]
  ultimately show ?thesis by blast
qed

lemma sample_cell_step:
  assumes ok: "sampler_ok draw" and net: "pixel_model ci ch net" and ch: "0 < ch"
    and img: "dims4 img = (B, ci, H, W)" and c: "c < ci" and h: "h < H" and w: "w < W"
    and seed: "seed_image img"
  shows "\<exists>img' net' g'.
           sample_cell draw h w c (img, net, g) = (None, img', net', g') \<and>
           dims4 img' = (B, ci, H, W) \<and> pixel_model ci ch net' \<and> seed_image img' \<and>
           (\<forall>b<B. 0 \<le> elem img' b c h w \<and> elem img' b c h w \<le> 255) \<and>
           (\<forall>b c' h' w'. 0 \<le> elem img b c' h' w' \<and> elem img b c' h' w' \<le> 255
                \<longrightarrow> 0 \<le> elem img' b c' h' w' \<and> elem img' b c' h' w' \<le> 255)"
proof (cases "all_filled img c h w")
  case True
  from img have dd: "dimB img = B" "dimC img = ci" "dimH img = H" "dimW img = W"
    by (simp_all add: dims4_def)
  with c h w True have r: "sample_cell draw h w c (img, net, g) = (None, img, net, g)"
    by (intro sample_cell_skip) simp_all
  have "\<forall>b<B. 0 \<le> elem img b c h w \<and> elem img b c h w \<le> 255"
  proof (intro allI impI)
    fix b assume b: "b < B"
    with True dd have "elem img b c h w \<noteq> - 1" by (simp add: all_filled_iff)
    moreover from seed b c h w dd
    have "elem img b c h w = - 1 \<or> (0 \<le> elem img b c h w \<and> elem img b c h w \<le> 255)"
      by (simp add: seed_image_def)
    ultimately show "0 \<le> elem img b c h w \<and> elem img b c h w \<le> 255" by blast
  qed
  with r img net seed show ?thesis by blast
next
  case False
  from img have dd: "dimB img = B" "dimC img = ci" "dimH img = H" "dimW img = W"
    by (simp_all add: dims4_def)
  from sample_cell_draw [OF net ch img c h w False, of draw g] obtain pred vals g' where
    m: "multinomial draw g (cell_probs pred c h w) = (vals, g')"
    and l: "length vals = B" and k: "dim5K pred = 256" and pb: "dim5B pred = B"
    and r: "sample_cell draw h w c (img, net, g) = (None, write_cell img c h w vals, mask_net net, g')"
    by (elim exE conjE)
  have ne: "\<forall>p\<in>set (cell_probs pred c h w). p \<noteq> []"
    using cell_probs_shape(2) [of pred c h w] k by auto
  from multinomial_range [OF ok ne m]
  have rng: "\<forall>b<B. vals ! b < 256"
    using cell_probs_shape [of pred c h w] k pb by (auto simp: all_set_conv_all_nth)
  let ?img' = "write_cell img c h w vals"
  have d': "dims4 ?img' = (B, ci, H, W)" using img by simp
  have cell: "\<forall>b<B. 0 \<le> elem ?img' b c h w \<and> elem ?img' b c h w \<le> 255"
    using rng dd by auto
  have keep: "\<forall>b c' h' w'. 0 \<le> elem img b c' h' w' \<and> elem img b c' h' w' \<le> 255
                \<longrightarrow> 0 \<le> elem ?img' b c' h' w' \<and> elem ?img' b c' h' w' \<le> 255"
    using rng dd by auto
  have seed': "seed_image ?img'"
    unfolding seed_image_def
  proof (intro allI impI)
    fix b c' h' w'
    assume a: "b < dimB ?img'" "c' < dimC ?img'" "h' < dimH ?img'" "w' < dimW ?img'"
    then have a': "b < B" "c' < ci" "h' < H" "w' < W"
      using dd by (simp_all add: write_cell_def)
    with seed dd
    have "elem img b c' h' w' = - 1 \<or> (0 \<le> elem img b c' h' w' \<and> elem img b c' h' w' \<le> 255)"
      by (simp add: seed_image_def)
    with rng a' dd
    show "elem ?img' b c' h' w' = - 1 \<or> (0 \<le> elem ?img' b c' h' w' \<and> elem ?img' b c' h' w' \<le> 255)"
      by auto
  qed
  from r d' pixel_model_mask_net [OF net] seed' cell keep show ?thesis by blast
qed

lemma for_each_map: "for_each body (map f xs) = for_each (\<lambda>x. body (f x)) xs"
proof
  fix s show "for_each body (map f xs) s = for_each (\<lambda>x. body (f x)) xs s"
    by (induction xs arbitrary: s) (simp_all split: prod.splits option.splits)
qed

lemma for_each_append:
  "for_each body (xs @ ys) s =
     (case for_each body xs s of
        (Some e, s') \<Rightarrow> (Some e, s')
      | (None, s') \<Rightarrow> for_each body ys s')"
  by (induction xs arbitrary: s) (simp_all split: prod.splits option.splits)

lemma for_each_concat_map:
  "for_each body (concat (map f xs)) = for_each (\<lambda>x. for_each body (f x)) xs"
proof
  fix s show "for_each body (concat (map f xs)) s = for_each (\<lambda>x. for_each body (f x)) xs s"
    by (induction xs arbitrary: s) (simp_all add: for_each_append split: prod.splits option.splits)
qed

lemma for_each_establishes:
  assumes step: "\<And>a s. a \<in> set xs \<Longrightarrow> I s \<Longrightarrow>
             \<exists>s'. body a s = (None, s') \<and> I s' \<and> Q a s' \<and> (\<forall>a'. Q a' s \<longrightarrow> Q a' s')"
    and "I s"
  shows "\<exists>s'. for_each body xs s = (None, s') \<and> I s' \<and> (\<forall>a\<in>set xs. Q a s') \<and>
           (\<forall>a'. Q a' s \<longrightarrow> Q a' s')"
  using assms
proof (induction xs arbitrary: s)
  case Nil
  then show ?case by simp
next
  case (Cons a xs)
  from Cons.prems(1) [of a s] Cons.prems(2) obtain s1 where
    s1: "body a s = (None, s1)" "I s1" "Q a s1" "\<forall>a'. Q a' s \<longrightarrow> Q a' s1"
    by auto
  have "\<exists>s'. for_each body xs s1 = (None, s') \<and> I s' \<and> (\<forall>a\<in>set xs. Q a s') \<and>
           (\<forall>a'. Q a' s1 \<longrightarrow> Q a' s')"
    by (rule Cons.IH) (use Cons.prems(1) s1 in auto)
  then obtain s' where
    s': "for_each body xs s1 = (None, s')" "I s'" "\<forall>a\<in>set xs. Q a s'" "\<forall>a'. Q a' s1 \<longrightarrow> Q a' s'"
    by blast
  from s1 s' show ?case by auto
qed

lemma for_each_preserves:
  assumes "\<And>a s s'. body a s = (None, s') \<Longrightarrow> P s \<Longrightarrow> P s'"
    and "P s" and "for_each body xs s = (None, s')"
  shows "P s'"
  using assms(2,3)
proof (induction xs arbitrary: s)
  case Nil
  then show ?case by simp
next
  case (Cons a xs)
  then show ?case using assms(1) by (auto split: prod.splits option.splits)
qed

lemma sample_flat:
  "sample draw net (B, C, H, W) g img =
     for_each (\<lambda>(h, w, c). sample_cell draw h w c) (cells H W C)
       (case img of None \<Rightarrow> empty_image (B, C, H, W) | Some im \<Rightarrow> im, net, g)"
  by (simp add: sample_def cells_def for_each_concat_map for_each_map Let_def)

lemma set_cells: "set (cells H W C) = {(h, w, c). h < H \<and> w < W \<and> c < C}"
  by (force simp: cells_def)

lemma empty_image_seed:
  "dims4 (empty_image (B, C, H, W)) = (B, C, H, W)" "seed_image (empty_image (B, C, H, W))"
  by (simp_all add: empty_image_def dims4_def seed_image_def)

lemma sample_establishes:
  assumes ok: "sampler_ok draw" and net: "pixel_model ci ch net" and ch: "0 < ch"
    and img: "dims4 img = (B, ci, H, W)" and seed: "seed_image img"
  shows "\<exists>img' net' g'.
           for_each (\<lambda>(h, w, c). sample_cell draw h w c) (cells H W ci) (img, net, g)
             = (None, img', net', g') \<and>
           dims4 img' = (B, ci, H, W) \<and> filled_image img'"
proof -
  define I :: "int tensor4 \<times> pixelcnn \<times> 'a \<Rightarrow> bool" where
    "I = (\<lambda>(im, n, g). dims4 im = (B, ci, H, W) \<and> pixel_model ci ch n \<and> seed_image im)"
  define Q :: "nat \<times> nat \<times> nat \<Rightarrow> int tensor4 \<times> pixelcnn \<times> 'a \<Rightarrow> bool" where
    "Q = (\<lambda>(h, w, c) (im, n, g). \<forall>b<B. 0 \<le> elem im b c h w \<and> elem im b c h w \<le> 255)"
  have step: "\<exists>s'. (\<lambda>(h, w, c). sample_cell draw h w c) a s = (None, s') \<and> I s' \<and> Q a s' \<and>
                (\<forall>a'. Q a' s \<longrightarrow> Q a' s')"
    if a: "a \<in> set (cells H W ci)" and s: "I s" for a s
  proof -
    obtain h w c where [simp]: "a = (h, w, c)" by (cases a)
    obtain im n g0 where [simp]: "s = (im, n, g0)" by (cases s)
    from a have r: "h < H" "w < W" "c < ci" by (simp_all add: set_cells)
    from s have i: "dims4 im = (B, ci, H, W)" "pixel_model ci ch n" "seed_image im"
      by (simp_all add: I_def)
    from sample_cell_step [OF ok i(2) ch i(1) r(3) r(1) r(2) i(3), of g0]
    obtain im' n' g' where
      "sample_cell draw h w c (im, n, g0) = (None, im', n', g')"
      "dims4 im' = (B, ci, H, W)" "pixel_model ci ch n'" "seed_image im'"
      "\<forall>b<B. 0 \<le> elem im' b c h w \<and> elem im' b c h w \<le> 255"
      "\<forall>b c' h' w'. 0 \<le> elem im b c' h' w' \<and> elem im b c' h' w' \<le> 255
                \<longrightarrow> 0 \<le> elem im' b c' h' w' \<and> elem im' b c' h' w' \<le> 255"
      by (elim exE conjE)
    then show ?thesis
      by (intro exI [of _ "(im', n', g')"]) (simp add: I_def Q_def)
  qed
  have "I (img, net, g)" using net img seed by (simp add: I_def)
  from for_each_establishes [of "cells H W ci" I "\<lambda>(h, w, c). sample_cell draw h w c" Q, OF step this]
  obtain s' where
    s': "for_each (\<lambda>(h, w, c). sample_cell draw h w c) (cells H W ci) (img, net, g) = (None, s')"
    "I s'" "\<forall>a\<in>set (cells H W ci). Q a s'"
    by blast
  obtain img' net' g' where [simp]: "s' = (img', net', g')" by (cases s')
  from s'(2) have d: "dims4 img' = (B, ci, H, W)" by (simp add: I_def)
  have "filled_image img'"
    unfolding filled_image_def
  proof (intro allI impI)
    fix b c h w
    assume "b < dimB img'" "c < dimC img'" "h < dimH img'" "w < dimW img'"
    with d have r: "b < B" "c < ci" "h < H" "w < W" by (simp_all add: dims4_def)
    then have "(h, w, c) \<in> set (cells H W ci)" by (simp add: set_cells)
    with s'(3) have "Q (h, w, c) s'" by blast
    with r show "0 \<le> elem img' b c h w \<and> elem img' b c h w \<le> 255" by (simp add: Q_def)
  qed
  with s'(1) d show ?thesis by auto
qed

lemma sampler_ok_first_class: "sampler_ok first_class"
  by (simp add: sampler_ok_def first_class_def)

section \<open>The order of the cells\<close>

lemma sorted_wrt_concat_map_upt:
  assumes "\<And>i. i < n \<Longrightarrow> sorted_wrt P (f i)"
    and "\<And>i j x y. i < j \<Longrightarrow> j < n \<Longrightarrow> x \<in> set (f i) \<Longrightarrow> y \<in> set (f j) \<Longrightarrow> P x y"
  shows "sorted_wrt P (concat (map f [0..<n]))"
  using assms
proof (induction n)
  case 0
  then show ?case by simp
next
  case (Suc n)
  have "sorted_wrt P (concat (map f [0..<n]))"
    by (rule Suc.IH) (use Suc.prems in auto)
  moreover have "sorted_wrt P (f n)" using Suc.prems(1) by simp
  moreover have "\<forall>x\<in>set (concat (map f [0..<n])). \<forall>y\<in>set (f n). P x y"
    using Suc.prems(2) by auto
  ultimately show ?case by (simp add: sorted_wrt_append)
qed

lemma sorted_wrt_cells: "sorted_wrt precedes (cells H W C)"
  unfolding cells_def
proof (rule sorted_wrt_concat_map_upt)
  fix h assume "h < H"
  show "sorted_wrt precedes (concat (map (\<lambda>w. map (\<lambda>c. (h, w, c)) [0..<C]) [0..<W]))"
  proof (rule sorted_wrt_concat_map_upt)
    fix w assume "w < W"
    have "sorted_wrt (\<lambda>c c'. precedes (h, w, c) (h, w, c')) [0..<C]"
      by (rule sorted_wrt_mono_rel [of _ "(<)"]) (simp_all add: precedes_simps)
    then show "sorted_wrt precedes (map (\<lambda>c. (h, w, c)) [0..<C])"
      by (simp add: sorted_wrt_map)
  next
    fix i j x y
    assume "i < j" "j < W" "x \<in> set (map (\<lambda>c. (h, i, c)) [0..<C])"
      "y \<in> set (map (\<lambda>c. (h, j, c)) [0..<C])"
    then show "precedes x y" by (auto simp: precedes_simps)
  qed
next
  fix i j x y
  assume "i < j" "j < H"
    "x \<in> set (concat (map (\<lambda>w. map (\<lambda>c. (i, w, c)) [0..<C]) [0..<W]))"
    "y \<in> set (concat (map (\<lambda>w. map (\<lambda>c. (j, w, c)) [0..<C]) [0..<W]))"
  then show "precedes x y" by (auto simp: precedes_simps)
qed

section \<open>The model after a call\<close>

lemma MaskedConvolution_forward_state:
  "MaskedConvolution_forward L x = (Inr y, L') \<Longrightarrow> L' = mul_mask L"
  by (auto simp: MaskedConvolution_forward_def Let_def split: if_splits sum.splits)

lemma GatedMaskedConv_forward_state:
  "GatedMaskedConv_forward G v h = (Inr r, G') \<Longrightarrow> G' = mask_gated G"
  by (auto simp: GatedMaskedConv_forward_def mask_gated_def Let_def split: sum.splits prod.splits
      dest!: MaskedConvolution_forward_state)

lemma run_layers_state:
  "run_layers Gs v h = (Inr r, Gs') \<Longrightarrow> Gs' = map mask_gated Gs"
proof (induction Gs arbitrary: v h r Gs')
  case Nil
  then show ?case by simp
next
  case (Cons G Gs)
  then show ?case
    by (auto split: sum.splits prod.splits dest!: GatedMaskedConv_forward_state)
qed

lemma forward_state:
  "forward net x = (Inr out, net') \<Longrightarrow> net' = mask_net net"
  by (auto simp: forward_def mask_net_def Let_def split: sum.splits prod.splits
      dest!: MaskedConvolution_forward_state run_layers_state)

lemma sample_cell_cases:
  assumes "sample_cell draw h w c (im, n, g0) = (None, im', n', g')" and "\<not> all_filled im c h w"
  shows "\<exists>pred vals.
           forward n (crop_rows im (h + 1)) = (Inr pred, n') \<and>
           multinomial draw g0 (cell_probs pred c h w) = (vals, g') \<and>
           length vals = dimB im \<and> im' = write_cell im c h w vals"
  using assms
  by (auto simp: sample_cell_def split: if_splits sum.splits prod.splits)

section \<open>The sampler returns\<close>

lemma sample_total:
  assumes net: "pixel_model ci ch net" and ch: "0 < ch"
    and img: "dims4 img = (B, ci, H, W)"
  shows "\<exists>img' net' g'.
           for_each (\<lambda>(h, w, c). sample_cell draw h w c) (cells H W ci) (img, net, g)
             = (None, img', net', g')"
proof -
  define I :: "int tensor4 \<times> pixelcnn \<times> 'a \<Rightarrow> bool" where
    "I = (\<lambda>(im, n, g). dims4 im = (B, ci, H, W) \<and> pixel_model ci ch n)"
  have step: "\<exists>s'. (\<lambda>(h, w, c). sample_cell draw h w c) a s = (None, s') \<and> I s' \<and> True \<and>
                (\<forall>a'::nat \<times> nat \<times> nat. True \<longrightarrow> True)"
    if a: "a \<in> set (cells H W ci)" and s: "I s" for a s
  proof -
    obtain h w c where [simp]: "a = (h, w, c)" by (cases a)
    obtain im n g0 where [simp]: "s = (im, n, g0)" by (cases s)
    from a have r: "h < H" "w < W" "c < ci" by (simp_all add: set_cells)
    from s have i: "dims4 im = (B, ci, H, W)" "pixel_model ci ch n"
      by (simp_all add: I_def)
    from sample_cell_total [OF i(2) ch i(1) r(3) r(1) r(2), of draw g0]
    obtain im' n' g' where
      "sample_cell draw h w c (im, n, g0) = (None, im', n', g')"
      "dims4 im' = (B, ci, H, W)" "pixel_model ci ch n'"
      by (elim exE conjE)
    then show ?thesis
      by (intro exI [of _ "(im', n', g')"]) (simp add: I_def)
  qed
  have "I (img, net, g)" using net img by (simp add: I_def)
  from for_each_establishes [of "cells H W ci" I "\<lambda>(h, w, c). sample_cell draw h w c"
      "\<lambda>a s. True", OF step this]
  obtain s' where
    "for_each (\<lambda>(h, w, c). sample_cell draw h w c) (cells H W ci) (img, net, g) = (None, s')"
    by blast
  then show ?thesis by (cases s') auto
qed

lemma for_each_fixed:
  assumes "\<forall>a\<in>set xs. body a s = (None, s)"
  shows "for_each body xs s = (None, s)"
  using assms by (induction xs) simp_all

section \<open>Cross-entropy and means\<close>

lemma sum_list_upt: "(\<Sum>i\<leftarrow>[0..<n]. f i) = (\<Sum>i<n. (f i :: real))"
  by (simp add: interv_sum_list_conv_sum_set_nat atLeast0LessThan)

lemma set_image_elems:
  "set (image_elems x b) = {elem x b c h w | c h w. c < dimC x \<and> h < dimH x \<and> w < dimW x}"
  by (force simp: image_elems_def)

lemma length_image_elems: "length (image_elems x b) = dimC x * dimH x * dimW x"
  by (simp add: image_elems_def length_concat comp_def sum_list_triv)

lemma sum_list_concat_eq: "sum_list (concat xss) = sum_list (map sum_list (xss :: real list list))"
  by (induction xss) simp_all

lemma sum_list_image_elems:
  "sum_list (image_elems x b) = (\<Sum>c<dimC x. \<Sum>h<dimH x. \<Sum>w<dimW x. (elem x b c h w :: real))"
  by (simp add: image_elems_def sum_list_concat_eq comp_def sum_list_upt)

lemma nll_at_nonneg:
  assumes "t < dim5K pred"
  shows "0 \<le> nll_at pred b c h w t"
proof -
  let ?f = "\<lambda>k. exp (elem5 pred b k c h w)"
  have le: "?f t \<le> (\<Sum>k<dim5K pred. ?f k)"
    by (rule member_le_sum) (use assms in simp_all)
  moreover have t: "0 < ?f t" by simp
  ultimately have S: "0 < (\<Sum>k<dim5K pred. ?f k)" by linarith
  with t le have "0 < ?f t / (\<Sum>k<dim5K pred. ?f k)" "?f t / (\<Sum>k<dim5K pred. ?f k) \<le> 1"
    by simp_all
  then have "ln (?f t / (\<Sum>k<dim5K pred. ?f k)) \<le> 0"
    by (simp add: ln_le_zero_iff)
  then show ?thesis
    by (simp add: nll_at_def sum_list_upt)
qed

lemma log2e_pos: "0 < log 2 (exp 1)"
  by (simp add: log_def)

lemma cross_entropy_ok:
  assumes pred: "dim5B pred = B" "dim5K pred = 256" "dim5C pred = C" "dim5H pred = H" "dim5W pred = W"
    and x: "dims4 x = (B, C, H, W)" and valid: "filled_image x"
  shows "cross_entropy pred x =
           Inr \<lparr>dimB = B, dimC = C, dimH = H, dimW = W,
                elem = (\<lambda>b c h w. let t = elem x b c h w
                                   in if t = - 100 then 0 else nll_at pred b c h w (nat t))\<rparr>"
proof -
  from x have d: "dimB x = B" "dimC x = C" "dimH x = H" "dimW x = W"
    by (simp_all add: dims4_def)
  have "valid_target 256 t" if "b < B" "t \<in> set (image_elems x b)" for b t
  proof -
    from that(2) obtain c h w where "t = elem x b c h w" "c < C" "h < H" "w < W"
      by (auto simp: set_image_elems d)
    with valid that(1) d have "0 \<le> t" "t \<le> 255" by (simp_all add: filled_image_def)
    then show ?thesis by (simp add: valid_target_def)
  qed
  then have "list_all (\<lambda>b. list_all (valid_target 256) (image_elems x b)) [0..<B]"
    by (simp add: list_all_iff)
  with pred d show ?thesis
    by (simp add: cross_entropy_def)
qed

lemma calc_likelihood_value:
  assumes net: "PixelCNN c_in c_hidden init = Inr net" and ch: "0 < c_hidden"
    and x: "dims4 x = (B, c_in, H, W)"
    and pos: "0 < B" "0 < c_in" "0 < H" "0 < W"
    and valid: "filled_image x"
  shows "\<exists>pred n v n'.
           forward net x = (Inr pred, n) \<and> calc_likelihood net x = (Inr (Some v), n') \<and>
           v = likelihood_spec pred x \<and> 0 \<le> v"
proof -
  note pm = PixelCNN_pixel_model [OF net]
  from forward_ok [OF pm ch pos(2) x pos(3,4)] obtain pred where
    f: "forward net x = (Inr pred, mask_net net)"
    and d: "dim5B pred = B" "dim5K pred = 256" "dim5C pred = c_in" "dim5H pred = H" "dim5W pred = W"
    by (elim exE conjE)
  from x have dx: "dimB x = B" "dimC x = c_in" "dimH x = H" "dimW x = W"
    by (simp_all add: dims4_def)
  define nll where "nll = \<lparr>dimB = B, dimC = c_in, dimH = H, dimW = W,
      elem = (\<lambda>b c h w. let t = elem x b c h w
                         in if t = - 100 then 0 else nll_at pred b c h w (nat t))\<rparr>"
  have ce: "cross_entropy pred x = Inr nll"
    unfolding nll_def by (rule cross_entropy_ok [OF d x valid])
  define N where "N = c_in * H * W"
  have N: "0 < N" using pos by (simp add: N_def)
  define m where "m = (\<lambda>b. (\<Sum>c<c_in. \<Sum>h<H. \<Sum>w<W. nll_at pred b c h w (nat (elem x b c h w))) / real N)"
  have el: "elem nll b c h w = nll_at pred b c h w (nat (elem x b c h w))"
    if "b < B" "c < c_in" "h < H" "w < W" for b c h w
  proof -
    from valid that dx have "0 \<le> elem x b c h w" by (simp add: filled_image_def)
    then show ?thesis by (simp add: nll_def Let_def)
  qed
  have mean_b: "mean (image_elems nll b) = Some (m b)" if "b < B" for b
  proof -
    have l: "length (image_elems nll b) = N"
      by (simp add: length_image_elems nll_def N_def)
    with N have ne: "image_elems nll b \<noteq> []" by auto
    have "sum_list (image_elems nll b)
          = (\<Sum>c<c_in. \<Sum>h<H. \<Sum>w<W. elem nll b c h w)"
      by (simp add: sum_list_image_elems nll_def)
    also have "\<dots> = (\<Sum>c<c_in. \<Sum>h<H. \<Sum>w<W. nll_at pred b c h w (nat (elem x b c h w)))"
      using that by (intro sum.cong refl el) simp_all
    finally show ?thesis using ne l by (simp add: mean_def m_def)
  qed
  let ?L = "log 2 (exp 1)"
  have bpd: "map (\<lambda>b. map_option (\<lambda>v. v * ?L) (mean (image_elems nll b))) [0..<dimB nll]
             = map (\<lambda>b. Some (m b * ?L)) [0..<B]"
  proof -
    have "dimB nll = B" by (simp add: nll_def)
    then show ?thesis by (simp add: mean_b)
  qed
  have mn: "mean_nan (map (\<lambda>b. Some (m b * ?L)) [0..<B]) = Some ((\<Sum>b<B. m b * ?L) / real B)"
    using pos(1) by (simp add: mean_nan_def mean_def list_all_iff comp_def sum_list_upt)
  define v where "v = (\<Sum>b<B. m b * ?L) / real B"
  have cl: "calc_likelihood net x = (Inr (Some v), mask_net net)"
    by (simp only: calc_likelihood_def f ce sum.case prod.case Let_def bpd mn v_def)
  have s1: "likelihood_spec pred x = (\<Sum>b<B. m b) / real B * ?L"
    unfolding likelihood_spec_def dx m_def N_def ..
  have s2: "v = (\<Sum>b<B. m b) / real B * ?L"
    unfolding v_def sum_distrib_right [symmetric] by (simp only: times_divide_eq_left)
  from s1 s2 have spec: "v = likelihood_spec pred x" by (rule ssubst)
  have nn: "0 \<le> nll_at pred b c h w (nat (elem x b c h w))"
    if "b < B" "c < c_in" "h < H" "w < W" for b c h w
  proof -
    from valid that dx have "0 \<le> elem x b c h w" "elem x b c h w \<le> 255"
      by (simp_all add: filled_image_def)
    then have "nat (elem x b c h w) < dim5K pred" using d by simp
    then show ?thesis by (rule nll_at_nonneg)
  qed
  have "0 \<le> m b" if "b < B" for b
    unfolding m_def using that by (intro divide_nonneg_nonneg sum_nonneg nn) simp_all
  then have "0 \<le> (\<Sum>b<B. m b * ?L)"
    using log2e_pos by (intro sum_nonneg mult_nonneg_nonneg) simp_all
  then have v0: "0 \<le> v" by (simp add: v_def)
  from f cl spec v0 show ?thesis
    by - (assumption | rule exI conjI)+
qed

section \<open>Masking a masked weight\<close>

lemma mask_at_binary:
  assumes bin: "binary_mask m" and bc: "broadcastable m kH kW" and k: "kh < kH" "kw < kW"
  shows "mask_at m kH kW kh kw = 0 \<or> mask_at m kH kW kh kw = 1"
proof -
  let ?i = "if shape0 m = kH then kh else 0" and ?j = "if shape1 m = kW then kw else 0"
  from bc k have i: "?i < length m" by (auto simp: broadcastable_def shape0_def)
  then have r: "m ! ?i \<in> set m" by (rule nth_mem)
  with bin have l: "length (m ! ?i) = shape1 m" by (simp add: binary_mask_def)
  from bc k have "?j < shape1 m" by (auto simp: broadcastable_def)
  with l have "m ! ?i ! ?j \<in> set (m ! ?i)" by simp
  with bin r show ?thesis unfolding mask_at_def binary_mask_def by blast
qed

lemma masked_weight_idem:
  assumes "binary_mask m" and "broadcastable m kH kW"
  shows "masked_weight (masked_weight w m kH kW) m kH kW = masked_weight w m kH kW"
proof (intro ext)
  fix co ci kh kw
  show "masked_weight (masked_weight w m kH kW) m kH kW co ci kh kw
        = masked_weight w m kH kW co ci kh kw"
  proof (cases "kh < kH \<and> kw < kW")
    case True
    then have k: "kh < kH" "kw < kW" by simp_all
    from mask_at_binary [OF assms k] k show ?thesis
      by (auto simp: masked_weight_def)
  next
    case False
    then have "\<And>v. masked_weight v m kH kW co ci kh kw = v co ci kh kw"
      by (simp only: masked_weight_def if_False)
    then show ?thesis by simp
  qed
qed

lemma mul_mask_idem:
  assumes "binary_mask (mask_buffer L)"
    and "broadcastable (mask_buffer L) (kernel_h (conv L)) (kernel_w (conv L))"
  shows "mul_mask (mul_mask L) = mul_mask L"
  using masked_weight_idem [OF assms] by (simp add: mul_mask_def)

lemma MaskedConvolution_forward_cases:
  assumes "MaskedConvolution_forward L x = (Inr y, L')"
  shows "broadcastable (mask_buffer L) (kernel_h (conv L)) (kernel_w (conv L))"
    and "L' = mul_mask L" and "Conv2d_forward (conv (mul_mask L)) x = Inr y"
  using assms
  by (auto simp: MaskedConvolution_forward_def Let_def split: if_splits sum.splits)

lemma kernel_mul_mask [simp]:
  "kernel_h (conv (mul_mask L)) = kernel_h (conv L)"
  "kernel_w (conv (mul_mask L)) = kernel_w (conv L)"
  by (simp_all add: mul_mask_def)

section \<open>The example layers\<close>

lemma example_layer_vert: "vert_layer 1 1 False 1 example_layer"
  by (simp add: example_layer_def vert_layer_def MaskedConvolution_shape shape0_def shape1_def)

lemma feature2x2_dims: "dims4 feature2x2 = (1, 1, 2, 2)"
  by (simp add: feature2x2_def)

lemma example_layer_forward:
  "MaskedConvolution_forward example_layer feature2x2 =
     (Inr \<lparr>dimB = 1, dimC = 1, dimH = 2, dimW = 2,
           elem = conv2d_out (conv (mul_mask example_layer)) feature2x2\<rparr>,
      mul_mask example_layer)"
  by (rule vert_layer_forward [OF example_layer_vert feature2x2_dims]) simp_all

section \<open>The model after sampling\<close>

lemma calc_likelihood_state:
  "calc_likelihood net x = (Inr v, net') \<Longrightarrow> net' = mask_net net"
  by (auto simp: calc_likelihood_def Let_def split: sum.splits prod.splits dest: forward_state)

lemma MaskedConvolution_forward_any:
  assumes "broadcastable (mask_buffer L) (kernel_h (conv L)) (kernel_w (conv L))"
  shows "MaskedConvolution_forward L x = (Conv2d_forward (conv (mul_mask L)) x, mul_mask L)"
  using assms by (simp add: MaskedConvolution_forward_def Let_def)

lemma forward_masks_vstack:
  assumes "broadcastable (mask_buffer (conv_vstack net)) (kernel_h (conv (conv_vstack net)))
             (kernel_w (conv (conv_vstack net)))"
  shows "conv_vstack (snd (forward net x)) = mul_mask (conv_vstack net)"
  using assms
  by (simp add: forward_def Let_def MaskedConvolution_forward_def split: prod.splits sum.splits)

lemma pixel_model_broadcastable:
  assumes "pixel_model ci ch net"
  shows "broadcastable (mask_buffer (conv_vstack net)) (kernel_h (conv (conv_vstack net)))
             (kernel_w (conv (conv_vstack net)))"
  using assms
  by (simp add: pixel_model_def vert_layer_def conv_shape_def broadcastable_def shape0_def
      shape1_def)

lemma forward_wrong_channels:
  assumes "pixel_model 1 1 net"
  shows "fst (forward net ((image2x2 0)\<lparr>dimC := 2\<rparr>)) = Inl RuntimeError"
  using assms
  by (simp add: forward_def Let_def MaskedConvolution_forward_def Conv2d_forward_def
      pixel_model_def vert_layer_def conv_shape_def broadcastable_def shape0_def shape1_def
      rescale_def map_tensor_def image2x2_def mul_mask_def)

lemma sorted_wrt_distinct:
  assumes "sorted_wrt P xs" and "\<And>x. \<not> P x x"
  shows "distinct xs"
  using assms by (induction xs) auto

lemma distinct_cells: "distinct (cells H W C)"
  by (rule sorted_wrt_distinct [OF sorted_wrt_cells]) (auto simp: precedes_def)

lemma all_filled_write_cell:
  assumes "(c', h', w') \<noteq> (c, h, w)"
  shows "all_filled (write_cell img c h w vals) c' h' w' = all_filled img c' h' w'"
  using assms by (auto simp: all_filled_iff write_cell_def)

lemma sample_cell_None:
  assumes "sample_cell draw h w c (im, n, g) = (None, im', n', g')"
  shows "if all_filled im c h w then im' = im \<and> n' = n \<and> g' = g
         else n' = mask_net n \<and> (\<exists>vals. im' = write_cell im c h w vals)"
  using assms
  by (auto simp: sample_cell_def split: if_splits sum.splits prod.splits dest: forward_state)

lemma for_each_sample_count:
  assumes "distinct ps"
    and "for_each (\<lambda>(h, w, c). sample_cell draw h w c) ps (im, n, g) = (None, im', n', g')"
  shows "n' = (mask_net ^^ length (filter (\<lambda>(h, w, c). \<not> all_filled im c h w) ps)) n"
  using assms
proof (induction ps arbitrary: im n g)
  case Nil
  then show ?case by simp
next
  case (Cons a ps)
  obtain h w c where a: "a = (h, w, c)" by (cases a)
  obtain r im1 n1 g1 where b: "sample_cell draw h w c (im, n, g) = (r, im1, n1, g1)"
    by (cases "sample_cell draw h w c (im, n, g)")
  from Cons.prems(2) a b have r: "r = None"
    and rest: "for_each (\<lambda>(h, w, c). sample_cell draw h w c) ps (im1, n1, g1) = (None, im', n', g')"
    by (auto split: option.splits)
  from Cons.prems(1) have d: "distinct ps" "a \<notin> set ps" by simp_all
  note IH = Cons.IH [OF d(1) rest]
  from b r have b': "sample_cell draw h w c (im, n, g) = (None, im1, n1, g1)" by simp
  note cl = sample_cell_None [OF b']
  show ?case
  proof (cases "all_filled im c h w")
    case True
    with cl have "im1 = im" "n1 = n" by simp_all
    with IH True a show ?thesis by simp
  next
    case False
    with cl obtain vals where n1: "n1 = mask_net n" and im1: "im1 = write_cell im c h w vals"
      by auto
    have "filter (\<lambda>(h, w, c). \<not> all_filled im1 c h w) ps
        = filter (\<lambda>(h, w, c). \<not> all_filled im c h w) ps"
    proof (rule filter_cong [OF refl])
      fix p assume p: "p \<in> set ps"
      obtain h' w' c' where p': "p = (h', w', c')" by (cases p)
      from p d(2) a p' have "(c', h', w') \<noteq> (c, h, w)" by auto
      then show "(case p of (h, w, c) \<Rightarrow> \<not> all_filled im1 c h w)
               = (case p of (h, w, c) \<Rightarrow> \<not> all_filled im c h w)"
        unfolding im1 p' by (simp add: all_filled_write_cell)
    qed
    with IH n1 False a show ?thesis by (simp add: funpow_swap1)
  qed
qed

lemma sample_count:
  assumes "sample draw net (B, C, H, W) g seed = (None, im', net', g')"
  shows "net' = (mask_net ^^ length (unfilled_cells
           (case seed of None \<Rightarrow> empty_image (B, C, H, W) | Some im \<Rightarrow> im) H W C)) net"
  unfolding unfilled_cells_def
  by (rule for_each_sample_count [OF distinct_cells assms [unfolded sample_flat]])

section \<open>The cells that the sampler leaves as they are\<close>

lemma sample_keeps_filled:
  assumes net: "pixel_model ci ch net" and ch: "0 < ch"
    and img: "dims4 img = (B, ci, H, W)"
  shows "\<exists>img' net' g'.
           for_each (\<lambda>(h, w, c). sample_cell draw h w c) (cells H W ci) (img, net, g)
             = (None, img', net', g') \<and>
           dims4 img' = (B, ci, H, W) \<and>
           (\<forall>c h w. all_filled img c h w \<longrightarrow> (\<forall>b. elem img' b c h w = elem img b c h w))"
proof -
  define I :: "int tensor4 \<times> pixelcnn \<times> 'a \<Rightarrow> bool" where
    "I = (\<lambda>(im, n, g). dims4 im = (B, ci, H, W) \<and> pixel_model ci ch n \<and>
            (\<forall>c h w. all_filled img c h w \<longrightarrow> (\<forall>b. elem im b c h w = elem img b c h w)))"
  have step: "\<exists>s'. (\<lambda>(h, w, c). sample_cell draw h w c) a s = (None, s') \<and> I s' \<and> True \<and>
                (\<forall>a'::nat \<times> nat \<times> nat. True \<longrightarrow> True)"
    if a: "a \<in> set (cells H W ci)" and s: "I s" for a s
  proof -
    obtain h w c where [simp]: "a = (h, w, c)" by (cases a)
    obtain im n g0 where [simp]: "s = (im, n, g0)" by (cases s)
    from a have r: "h < H" "w < W" "c < ci" by (simp_all add: set_cells)
    from s have i: "dims4 im = (B, ci, H, W)" "pixel_model ci ch n"
      and keep: "\<forall>c h w. all_filled img c h w \<longrightarrow> (\<forall>b. elem im b c h w = elem img b c h w)"
      by (simp_all add: I_def)
    from sample_cell_total [OF i(2) ch i(1) r(3) r(1) r(2), of draw g0]
    obtain im' n' g' where
      run: "sample_cell draw h w c (im, n, g0) = (None, im', n', g')"
      and d': "dims4 im' = (B, ci, H, W)" and pm': "pixel_model ci ch n'"
      by (elim exE conjE)
    have keep': "\<forall>c' h' w'. all_filled img c' h' w'
                   \<longrightarrow> (\<forall>b. elem im' b c' h' w' = elem img b c' h' w')"
    proof (cases "all_filled im c h w")
      case True
      with sample_cell_None [OF run] keep show ?thesis by simp
    next
      case False
      with sample_cell_None [OF run] obtain vals where im': "im' = write_cell im c h w vals"
        by auto
      have nf: "\<not> all_filled img c h w"
      proof
        assume f: "all_filled img c h w"
        with keep have "\<forall>b. elem im b c h w = elem img b c h w" by blast
        moreover from i(1) img have "dimB im = dimB img" by (simp add: dims4_def)
        ultimately have "all_filled im c h w" using f by (simp add: all_filled_iff)
        with False show False by contradiction
      qed
      show ?thesis
      proof (intro allI impI)
        fix c' h' w' b assume f: "all_filled img c' h' w'"
        with nf have "\<not> (c' = c \<and> h' = h \<and> w' = w)" by auto
        then have "elem im' b c' h' w' = elem im b c' h' w'" unfolding im' by auto
        with keep f show "elem im' b c' h' w' = elem img b c' h' w'" by simp
      qed
    qed
    from run d' pm' keep' show ?thesis
      by (intro exI [of _ "(im', n', g')"]) (simp add: I_def)
  qed
  have "I (img, net, g)" using net img by (simp add: I_def)
  from for_each_establishes [of "cells H W ci" I "\<lambda>(h, w, c). sample_cell draw h w c"
      "\<lambda>a s. True", OF step this]
  obtain s' where
    s': "for_each (\<lambda>(h, w, c). sample_cell draw h w c) (cells H W ci) (img, net, g) = (None, s')"
      "I s'"
    by blast
  obtain img' net' g' where [simp]: "s' = (img', net', g')" by (cases s')
  from s' show ?thesis by (simp add: I_def)
qed

section \<open>Cropping the rows below the current one\<close>

text \<open>
  With real numbers in place of floating-point numbers, the forward pass on an image cropped
  to the rows \<open>0\<close> to \<open>h\<close> and the forward pass on the whole image return logits that are
  equal at every position of the rows \<open>0\<close> to \<open>h\<close>. The lemma says nothing about the
  rounding of the two computations.
\<close>

lemma forward_crop_agrees:
  assumes net: "PixelCNN c_in c_hidden init = Inr net" and ch: "0 < c_hidden" and ci: "0 < c_in"
    and x: "dims4 x = (B, c_in, H, W)" and h: "h < H" and W: "0 < W"
  shows "\<exists>out out' n n'.
           forward net x = (Inr out, n) \<and> forward net (crop_rows x (h + 1)) = (Inr out', n') \<and>
           dim5H out' = h + 1 \<and>
           (\<forall>b<B. \<forall>k c. \<forall>i\<le>h. \<forall>j<W. elem5 out' b k c i j = elem5 out b k c i j)"
proof -
  note pm = PixelCNN_pixel_model [OF net]
  from h have H: "0 < H" by simp
  have H1: "0 < h + 1" by simp
  have x': "dims4 (crop_rows x (h + 1)) = (B, c_in, h + 1, W)"
    using x h by (simp add: crop_rows_def dims4_def)
  from forward_ok [OF pm ch ci x H W] obtain out where
    r: "forward net x = (Inr out, mask_net net)" by (elim exE conjE)
  from forward_ok [OF pm ch ci x' H1 W] obtain out' where
    r': "forward net (crop_rows x (h + 1)) = (Inr out', mask_net net)"
    and dh: "dim5H out' = h + 1" by (elim exE conjE)
  have eq: "\<forall>b<B. \<forall>k c. \<forall>i\<le>h. \<forall>j<W. elem5 out' b k c i j = elem5 out b k c i j"
  proof (intro allI impI)
    fix b k c i j assume a: "b < B" "i \<le> h" "j < W"
    with h have i: "i < H" "i < h + 1" by simp_all
    have "\<forall>c'<c_in. \<forall>i' j'. j' < W \<longrightarrow> i' < i \<or> (i' = i \<and> j' < j) \<longrightarrow>
            elem x b c' i' j' = elem (crop_rows x (h + 1)) b c' i' j'"
      by (simp add: crop_rows_def)
    from forward_agrees [OF pm ch ci x x' a(1) i a(3) this r r']
    show "elem5 out' b k c i j = elem5 out b k c i j" by (rule sym)
  qed
  from r r' dh eq show ?thesis
    by - (rule exI conjI | assumption)+
qed


section \<open>Claim C1: causality of the forward pass\<close>

text \<open>
  Claim C1. For a model built by the constructor and two images of the same shape, take a
  cell \<open>(h, w, c)\<close> and a batch element \<open>b\<close>. Both forward passes return logits. If the
  images agree at every cell strictly before \<open>(h, w, c)\<close> in raster-then-channel order, the
  logits of the cell \<open>(h, w, c)\<close> are equal for every class: they are a function of the
  strictly preceding pixels alone. If the images agree at \<open>(h, w, c)\<close> and at every cell
  before it, the logits are equal at \<open>(h, w, c)\<close> and at every cell before it, whatever
  the images hold at later cells.
\<close>

theorem forward_causal:
  assumes net: "PixelCNN c_in c_hidden init = Inr net" and ch: "0 < c_hidden"
    and x: "dims4 x = (B, c_in, H, W)" and x': "dims4 x' = (B, c_in, H, W)"
    and b: "b < B" and h: "h < H" and w: "w < W" and c: "c < c_in"
  shows "\<exists>out out' n n'.
           forward net x = (Inr out, n) \<and> forward net x' = (Inr out', n') \<and>
           ((\<forall>h' w' c'. h' < H \<longrightarrow> w' < W \<longrightarrow> c' < c_in \<longrightarrow> precedes (h', w', c') (h, w, c)
                 \<longrightarrow> elem x b c' h' w' = elem x' b c' h' w')
              \<longrightarrow> (\<forall>k. elem5 out b k c h w = elem5 out' b k c h w)) \<and>
           ((\<forall>h' w' c'. h' < H \<longrightarrow> w' < W \<longrightarrow> c' < c_in
                 \<longrightarrow> precedes (h', w', c') (h, w, c) \<or> (h', w', c') = (h, w, c)
                 \<longrightarrow> elem x b c' h' w' = elem x' b c' h' w')
              \<longrightarrow> (\<forall>h' w' c' k. w' < W \<longrightarrow> c' < c_in
                 \<longrightarrow> precedes (h', w', c') (h, w, c) \<or> (h', w', c') = (h, w, c)
                 \<longrightarrow> elem5 out b k c' h' w' = elem5 out' b k c' h' w'))"
proof -
  note pm = PixelCNN_pixel_model [OF net]
  from h w c have H: "0 < H" and W: "0 < W" and ci: "0 < c_in" by simp_all
  from forward_ok [OF pm ch ci x H W] obtain out where
    r: "forward net x = (Inr out, mask_net net)" by (elim exE conjE)
  from forward_ok [OF pm ch ci x' H W] obtain out' where
    r': "forward net x' = (Inr out', mask_net net)" by (elim exE conjE)
  have S: "(\<forall>h' w' c'. h' < H \<longrightarrow> w' < W \<longrightarrow> c' < c_in \<longrightarrow> precedes (h', w', c') (h, w, c)
                 \<longrightarrow> elem x b c' h' w' = elem x' b c' h' w')
              \<longrightarrow> (\<forall>k. elem5 out b k c h w = elem5 out' b k c h w)"
  proof (intro impI allI)
    fix k
    assume eq: "\<forall>h' w' c'. h' < H \<longrightarrow> w' < W \<longrightarrow> c' < c_in \<longrightarrow> precedes (h', w', c') (h, w, c)
          \<longrightarrow> elem x b c' h' w' = elem x' b c' h' w'"
    have "\<forall>c'<c_in. \<forall>i j. j < W \<longrightarrow> i < h \<or> (i = h \<and> j < w) \<longrightarrow>
            elem x b c' i j = elem x' b c' i j"
    proof (intro allI impI)
      fix c' i j assume a: "c' < c_in" "j < W" "i < h \<or> (i = h \<and> j < w)"
      then have "precedes (i, j, c') (h, w, c)" by (auto simp: precedes_simps)
      moreover from a h have "i < H" by auto
      ultimately show "elem x b c' i j = elem x' b c' i j"
        using eq [rule_format, of i j c'] a by simp
    qed
    from forward_agrees [OF pm ch ci x x' b h h w this r r']
    show "elem5 out b k c h w = elem5 out' b k c h w" .
  qed
  have U: "(\<forall>h' w' c'. h' < H \<longrightarrow> w' < W \<longrightarrow> c' < c_in
                 \<longrightarrow> precedes (h', w', c') (h, w, c) \<or> (h', w', c') = (h, w, c)
                 \<longrightarrow> elem x b c' h' w' = elem x' b c' h' w')
              \<longrightarrow> (\<forall>h' w' c' k. w' < W \<longrightarrow> c' < c_in
                 \<longrightarrow> precedes (h', w', c') (h, w, c) \<or> (h', w', c') = (h, w, c)
                 \<longrightarrow> elem5 out b k c' h' w' = elem5 out' b k c' h' w')"
  proof (intro impI allI)
    fix h' w' c' k
    assume eq: "\<forall>h' w' c'. h' < H \<longrightarrow> w' < W \<longrightarrow> c' < c_in
          \<longrightarrow> precedes (h', w', c') (h, w, c) \<or> (h', w', c') = (h, w, c)
          \<longrightarrow> elem x b c' h' w' = elem x' b c' h' w'"
      and p: "w' < W" "c' < c_in" "precedes (h', w', c') (h, w, c) \<or> (h', w', c') = (h, w, c)"
    from p(3) have le: "h' < h \<or> (h' = h \<and> w' \<le> w)"
      by (auto simp: precedes_simps)
    with h have h': "h' < H" by auto
    have "\<forall>c''<c_in. \<forall>i j. j < W \<longrightarrow> i < h' \<or> (i = h' \<and> j < w') \<longrightarrow>
            elem x b c'' i j = elem x' b c'' i j"
    proof (intro allI impI)
      fix c'' i j assume a: "c'' < c_in" "j < W" "i < h' \<or> (i = h' \<and> j < w')"
      with le have "precedes (i, j, c'') (h, w, c)" by (auto simp: precedes_simps)
      moreover from a h' have "i < H" by auto
      ultimately show "elem x b c'' i j = elem x' b c'' i j"
        using eq [rule_format, of i j c''] a by simp
    qed
    from forward_agrees [OF pm ch ci x x' b h' h' p(1) this r r']
    show "elem5 out b k c' h' w' = elem5 out' b k c' h' w'" .
  qed
  from r r' S U show ?thesis
    by - (rule exI conjI | assumption)+
qed

theorem forward_causal_witness:
  "\<exists>net out out' n n'.
     PixelCNN 1 1 unit_init = Inr net \<and>
     dims4 (image2x2 0) = (1, 1, 2, 2) \<and> dims4 (image2x2 255) = (1, 1, 2, 2) \<and>
     elem (image2x2 0) 0 0 1 1 \<noteq> elem (image2x2 255) 0 0 1 1 \<and>
     forward net (image2x2 0) = (Inr out, n) \<and> forward net (image2x2 255) = (Inr out', n') \<and>
     (\<forall>h' w' c' k. w' < 2 \<longrightarrow> c' < 1
        \<longrightarrow> precedes (h', w', c') (1, 0, 0) \<or> (h', w', c') = (1, 0, 0)
        \<longrightarrow> elem5 out 0 k c' h' w' = elem5 out' 0 k c' h' w')"
proof -
  from PixelCNN_total obtain net where net: "PixelCNN 1 1 unit_init = Inr net"
    by blast
  have d: "dims4 (image2x2 0) = (1, 1, 2, 2)" "dims4 (image2x2 255) = (1, 1, 2, 2)"
    by (simp_all add: image2x2_def dims4_def)
  have ne: "elem (image2x2 0) 0 0 1 1 \<noteq> elem (image2x2 255) 0 0 1 1"
    by (simp add: image2x2_def)
  have eq: "\<forall>h' w' c'. h' < 2 \<longrightarrow> w' < 2 \<longrightarrow> c' < 1
        \<longrightarrow> precedes (h', w', c') (1, 0, 0) \<or> (h', w', c') = (1, 0, 0)
        \<longrightarrow> elem (image2x2 0) 0 c' h' w' = elem (image2x2 255) 0 c' h' w'"
    by (simp add: image2x2_def precedes_simps)
  have p: "(0::nat) < 1" "(1::nat) < 2" "(0::nat) < 2" by simp_all
  from forward_causal [OF net zero_less_one d(1) d(2) p(1) p(2) p(3) p(1)]
  obtain out out' n n' where
    r: "forward net (image2x2 0) = (Inr out, n)" "forward net (image2x2 255) = (Inr out', n')"
    and imp: "(\<forall>h' w' c'. h' < 2 \<longrightarrow> w' < 2 \<longrightarrow> c' < 1
        \<longrightarrow> precedes (h', w', c') (1, 0, 0) \<or> (h', w', c') = (1, 0, 0)
        \<longrightarrow> elem (image2x2 0) 0 c' h' w' = elem (image2x2 255) 0 c' h' w')
      \<longrightarrow> (\<forall>h' w' c' k. w' < 2 \<longrightarrow> c' < 1
        \<longrightarrow> precedes (h', w', c') (1, 0, 0) \<or> (h', w', c') = (1, 0, 0)
        \<longrightarrow> elem5 out 0 k c' h' w' = elem5 out' 0 k c' h' w')"
    by (elim exE conjE)
  from imp eq have concl: "\<forall>h' w' c' k. w' < 2 \<longrightarrow> c' < 1
        \<longrightarrow> precedes (h', w', c') (1, 0, 0) \<or> (h', w', c') = (1, 0, 0)
        \<longrightarrow> elem5 out 0 k c' h' w' = elem5 out' 0 k c' h' w'"
    by (rule mp)
  from net d ne r concl show ?thesis
    by - (rule exI conjI | assumption)+
qed

section \<open>Claim C2: the stored weight is masked in place\<close>

text \<open>
  Claim C2, as amended. The mask of a masked convolution built by the constructor has the
  extents of the kernel, and so broadcasts to it, before and after any application. Every
  application of a masked convolution whose mask broadcasts to the kernel replaces the
  stored weight by its element-wise product with the mask and convolves with this product,
  whether the convolution then returns or raises; the mask, the bias and the shape of the
  convolution are as before. A forward pass and a likelihood computation that return leave
  the model with the weight of every masked convolution masked once. A call of the sampler
  that returns leaves the model masked once for each cell that it had to fill, that is, for
  each cell at which the image it starts from holds -1 in some batch element. A forward
  pass that raises has masked the vertical input stack all the same, when the mask of this
  stack broadcasts to its kernel. The output convolution and the convolutions with a kernel
  of one element are never changed.
\<close>

theorem masking_in_place:
  "broadcastable (mask_buffer (MaskedConvolution c_in c_out msk dil init))
     (kernel_h (conv (MaskedConvolution c_in c_out msk dil init)))
     (kernel_w (conv (MaskedConvolution c_in c_out msk dil init)))
   \<and> (broadcastable (mask_buffer (mul_mask L)) (kernel_h (conv (mul_mask L)))
         (kernel_w (conv (mul_mask L)))
        \<longleftrightarrow> broadcastable (mask_buffer L) (kernel_h (conv L)) (kernel_w (conv L)))
   \<and> (broadcastable (mask_buffer L) (kernel_h (conv L)) (kernel_w (conv L)) \<longrightarrow>
       MaskedConvolution_forward L x = (Conv2d_forward (conv (mul_mask L)) x, mul_mask L) \<and>
       (\<forall>co ci kh kw. kh < kernel_h (conv L) \<longrightarrow> kw < kernel_w (conv L) \<longrightarrow>
          weight (conv (mul_mask L)) co ci kh kw =
            weight (conv L) co ci kh kw *
            mask_at (mask_buffer L) (kernel_h (conv L)) (kernel_w (conv L)) kh kw) \<and>
       mask_buffer (mul_mask L) = mask_buffer L \<and> bias (conv (mul_mask L)) = bias (conv L) \<and>
       conv_shape (conv (mul_mask L)) = conv_shape (conv L))
   \<and> (forward net im = (Inr out, net1) \<longrightarrow> net1 = mask_net net)
   \<and> (calc_likelihood net im = (Inr v, net2) \<longrightarrow> net2 = mask_net net)
   \<and> (sample draw net (B, C, H, W) g seed = (None, im', net3, g') \<longrightarrow>
       net3 = (mask_net ^^ length (unfilled_cells
                 (case seed of None \<Rightarrow> empty_image (B, C, H, W) | Some s \<Rightarrow> s) H W C)) net)
   \<and> (broadcastable (mask_buffer (conv_vstack net)) (kernel_h (conv (conv_vstack net)))
         (kernel_w (conv (conv_vstack net))) \<longrightarrow>
       conv_vstack (snd (forward net im)) = mul_mask (conv_vstack net))
   \<and> conv_vstack (mask_net net) = mul_mask (conv_vstack net)
   \<and> conv_hstack (mask_net net) = mul_mask (conv_hstack net)
   \<and> map conv_vert (conv_layers (mask_net net)) = map (\<lambda>G. mul_mask (conv_vert G)) (conv_layers net)
   \<and> map conv_horiz (conv_layers (mask_net net)) = map (\<lambda>G. mul_mask (conv_horiz G)) (conv_layers net)
   \<and> conv_out (mask_net net) = conv_out net
   \<and> map conv_vert_to_horiz (conv_layers (mask_net net)) = map conv_vert_to_horiz (conv_layers net)
   \<and> map conv_horiz_1x1 (conv_layers (mask_net net)) = map conv_horiz_1x1 (conv_layers net)"
proof (intro conjI impI allI)
  show "broadcastable (mask_buffer (MaskedConvolution c_in c_out msk dil init))
     (kernel_h (conv (MaskedConvolution c_in c_out msk dil init)))
     (kernel_w (conv (MaskedConvolution c_in c_out msk dil init)))"
    by (simp add: MaskedConvolution_def Conv2d_def broadcastable_def Let_def)
  show "broadcastable (mask_buffer (mul_mask L)) (kernel_h (conv (mul_mask L)))
         (kernel_w (conv (mul_mask L)))
        \<longleftrightarrow> broadcastable (mask_buffer L) (kernel_h (conv L)) (kernel_w (conv L))"
    by simp
next
  assume bc: "broadcastable (mask_buffer L) (kernel_h (conv L)) (kernel_w (conv L))"
  show "MaskedConvolution_forward L x = (Conv2d_forward (conv (mul_mask L)) x, mul_mask L)"
    by (rule MaskedConvolution_forward_any [OF bc])
  show "mask_buffer (mul_mask L) = mask_buffer L" by simp
  show "bias (conv (mul_mask L)) = bias (conv L)" by (simp add: mul_mask_def)
  show "conv_shape (conv (mul_mask L)) = conv_shape (conv L)" by simp
next
  fix co ci kh kw
  assume "kh < kernel_h (conv L)" "kw < kernel_w (conv L)"
  then show "weight (conv (mul_mask L)) co ci kh kw =
            weight (conv L) co ci kh kw *
            mask_at (mask_buffer L) (kernel_h (conv L)) (kernel_w (conv L)) kh kw"
    by (simp add: mul_mask_def masked_weight_def)
next
  assume "forward net im = (Inr out, net1)"
  then show "net1 = mask_net net" by (rule forward_state)
next
  assume "calc_likelihood net im = (Inr v, net2)"
  then show "net2 = mask_net net" by (rule calc_likelihood_state)
next
  assume "sample draw net (B, C, H, W) g seed = (None, im', net3, g')"
  then show "net3 = (mask_net ^^ length (unfilled_cells
                 (case seed of None \<Rightarrow> empty_image (B, C, H, W) | Some s \<Rightarrow> s) H W C)) net"
    by (rule sample_count)
next
  assume "broadcastable (mask_buffer (conv_vstack net)) (kernel_h (conv (conv_vstack net)))
         (kernel_w (conv (conv_vstack net)))"
  then show "conv_vstack (snd (forward net im)) = mul_mask (conv_vstack net)"
    by (rule forward_masks_vstack)
next
  show "conv_vstack (mask_net net) = mul_mask (conv_vstack net)" by (simp add: mask_net_def)
  show "conv_hstack (mask_net net) = mul_mask (conv_hstack net)" by (simp add: mask_net_def)
  show "map conv_vert (conv_layers (mask_net net)) = map (\<lambda>G. mul_mask (conv_vert G)) (conv_layers net)"
    by (simp add: mask_net_def mask_gated_def)
  show "map conv_horiz (conv_layers (mask_net net)) = map (\<lambda>G. mul_mask (conv_horiz G)) (conv_layers net)"
    by (simp add: mask_net_def mask_gated_def)
  show "conv_out (mask_net net) = conv_out net" by (simp add: mask_net_def)
  show "map conv_vert_to_horiz (conv_layers (mask_net net)) = map conv_vert_to_horiz (conv_layers net)"
    by (simp add: mask_net_def mask_gated_def)
  show "map conv_horiz_1x1 (conv_layers (mask_net net)) = map conv_horiz_1x1 (conv_layers net)"
    by (simp add: mask_net_def mask_gated_def)
qed

theorem masking_in_place_witness:
  "\<exists>net out net1 v net2 im' net3 g'.
     PixelCNN 1 1 unit_init = Inr net \<and>
     broadcastable (mask_buffer example_layer) (kernel_h (conv example_layer))
       (kernel_w (conv example_layer)) \<and>
     MaskedConvolution_forward example_layer feature2x2 =
       (Conv2d_forward (conv (mul_mask example_layer)) feature2x2, mul_mask example_layer) \<and>
     weight (conv example_layer) 0 0 2 0 = 1 \<and>
     weight (conv (mul_mask example_layer)) 0 0 2 0 = 0 \<and>
     MaskedConvolution_forward example_layer (feature2x2\<lparr>dimC := 2\<rparr>) =
       (Inl RuntimeError, mul_mask example_layer) \<and>
     forward net (image2x2 0) = (Inr out, net1) \<and> net1 = mask_net net \<and>
     calc_likelihood net (image2x2 0) = (Inr v, net2) \<and> net2 = mask_net net \<and>
     sample first_class net (1, 1, 2, 2) 0 None = (None, im', net3, g') \<and>
     net3 = (mask_net ^^ 4) net \<and>
     fst (forward net ((image2x2 0)\<lparr>dimC := 2\<rparr>)) = Inl RuntimeError \<and>
     conv_vstack (snd (forward net ((image2x2 0)\<lparr>dimC := 2\<rparr>))) = mul_mask (conv_vstack net)"
proof -
  from PixelCNN_total obtain net where net: "PixelCNN 1 1 unit_init = Inr net"
    and pm: "pixel_model 1 1 net"
    by blast
  have bc: "broadcastable (mask_buffer example_layer) (kernel_h (conv example_layer))
       (kernel_w (conv example_layer))"
    by (simp add: example_layer_def MaskedConvolution_def Conv2d_def broadcastable_def Let_def)
  have d: "dims4 (image2x2 0) = (1, 1, 2, 2)" and fi: "filled_image (image2x2 0)"
    by (simp_all add: image2x2_def dims4_def filled_image_def)
  have p: "(0::nat) < 1" "(0::nat) < 2" by simp_all
  from forward_ok [OF pm zero_less_one p(1) d p(2) p(2)] obtain out where
    f: "forward net (image2x2 0) = (Inr out, mask_net net)"
    by (elim exE conjE)
  from calc_likelihood_value [OF net zero_less_one d p(1) p(1) p(2) p(2) fi]
  obtain v net2 where l: "calc_likelihood net (image2x2 0) = (Inr (Some v), net2)"
    by (elim exE conjE)
  have ei: "dims4 (empty_image (1, 1, 2, 2)) = (1, 1, 2, 2)"
    by (rule empty_image_seed)
  from sample_total [OF pm zero_less_one ei, where draw = first_class and g = 0]
  obtain im' net3 g' where
    s: "sample first_class net (1, 1, 2, 2) 0 None = (None, im', net3, g')"
    unfolding sample_flat by (simp del: One_nat_def) blast
  have n: "length (unfilled_cells (case None of None \<Rightarrow> empty_image (1, 1, 2, 2) | Some s \<Rightarrow> s)
             2 2 1) = 4"
    by (simp add: unfilled_cells_def cells_def all_filled_iff empty_image_def upt_rec)
  note T = masking_in_place [where L = example_layer and x = feature2x2 and net = net
      and im = "image2x2 0" and draw = first_class and B = 1 and C = 1 and H = 2 and W = 2
      and g = 0 and seed = None]
  note T' = masking_in_place [where L = example_layer and x = "feature2x2\<lparr>dimC := 2\<rparr>"]
  note R = T [THEN conjunct2, THEN conjunct2]
  note a = R [THEN conjunct1, THEN mp, OF bc, THEN conjunct1]
  have "Conv2d_forward (conv (mul_mask example_layer)) (feature2x2\<lparr>dimC := 2\<rparr>)
          = Inl RuntimeError"
    by (simp add: Conv2d_forward_def mul_mask_def example_layer_def MaskedConvolution_def
        Conv2d_def feature2x2_def Let_def)
  with T' [THEN conjunct2, THEN conjunct2, THEN conjunct1, THEN mp, OF bc, THEN conjunct1]
  have a': "MaskedConvolution_forward example_layer (feature2x2\<lparr>dimC := 2\<rparr>) =
       (Inl RuntimeError, mul_mask example_layer)"
    by simp
  have k: "kernel_h (conv example_layer) = 3" "kernel_w (conv example_layer) = 3"
    by (simp_all add: example_layer_def MaskedConvolution_def Conv2d_def Let_def shape0_def
        shape1_def)
  have w1: "weight (conv example_layer) 0 0 2 0 = 1"
    by (simp add: example_layer_def MaskedConvolution_def Conv2d_def unit_init_def Let_def)
  have m0: "mask_at (mask_buffer example_layer) 3 3 2 0 = 0"
    by (simp add: example_layer_def MaskedConvolution_def Let_def mask_at_def shape0_def
        shape1_def)
  note q = R [THEN conjunct1, THEN mp, OF bc, THEN conjunct2, THEN conjunct1]
  from q [rule_format, where kh = 2 and kw = 0 and co = 0 and ci = 0] k w1 m0
  have w0: "weight (conv (mul_mask example_layer)) 0 0 2 0 = 0"
    by simp
  note b = R [THEN conjunct2, THEN conjunct1, THEN mp, OF f]
  note c = R [THEN conjunct2, THEN conjunct2, THEN conjunct1, THEN mp, OF l]
  note e = R [THEN conjunct2, THEN conjunct2, THEN conjunct2, THEN conjunct1,
      THEN mp, OF s, unfolded n]
  note T2 = masking_in_place [where net = net and im = "(image2x2 0)\<lparr>dimC := 2\<rparr>"]
  note r = T2 [THEN conjunct2, THEN conjunct2, THEN conjunct2, THEN conjunct2, THEN conjunct2,
      THEN conjunct2, THEN conjunct1, THEN mp, OF pixel_model_broadcastable [OF pm]]
  note fw = forward_wrong_channels [OF pm]
  from net bc a w1 w0 a' f b l c s e fw r show ?thesis
    by - (assumption | rule exI conjI)+
qed

text \<open>
  Claim C2, as stated, fails: the application of the example layer, whose weights are all
  1, returns and leaves the stored weight 0 in the last row of the kernel.
\<close>

theorem stored_weight_overwritten:
  "\<not> isl (fst (MaskedConvolution_forward example_layer feature2x2)) \<and>
   weight (conv example_layer) 0 0 2 0 = 1 \<and>
   weight (conv (snd (MaskedConvolution_forward example_layer feature2x2))) 0 0 2 0 = 0"
proof -
  have "weight (conv (mul_mask example_layer)) 0 0 2 0 = 0"
    by (rule vert_weight_zero [OF example_layer_vert]) simp_all
  moreover have "weight (conv example_layer) 0 0 2 0 = 1"
    by (simp add: example_layer_def MaskedConvolution_def Conv2d_def unit_init_def Let_def)
  ultimately show ?thesis
    by (simp add: example_layer_forward)
qed

section \<open>Claim C4: numbers of zeros in the masks\<close>

text \<open>
  Claim C4. For every odd kernel extent \<open>k\<close> (in particular 3, 5 and 7) the mask builders
  return a mask, and the vertical mask has \<open>(k div 2 + 1) * k\<close> zero entries with the centre
  row masked and \<open>(k div 2) * k\<close> without; the horizontal mask has \<open>k div 2 + 1\<close> zero
  entries with the centre masked and \<open>k div 2\<close> without.
\<close>

theorem mask_zero_counts:
  assumes "odd k"
  shows "(\<exists>m. vertical_mask k True = Inr m \<and> count_zeros m = (k div 2 + 1) * k)
       \<and> (\<exists>m. vertical_mask k False = Inr m \<and> count_zeros m = (k div 2) * k)
       \<and> (\<exists>m. horizontal_mask k True = Inr m \<and> count_zeros m = k div 2 + 1)
       \<and> (\<exists>m. horizontal_mask k False = Inr m \<and> count_zeros m = k div 2)"
proof -
  from assms have pos: "0 < k" by (cases k) simp_all
  from assms have b: "k - Suc (k div 2) = k div 2" by presburger
  have v1: "\<exists>m. vertical_mask k True = Inr m \<and> count_zeros m = (k div 2 + 1) * k"
    unfolding vertical_mask_center [OF pos] b
    by (simp add: count_zeros_append count_zeros_Cons
        count_zeros_replicate_ones count_zeros_replicate_zeros)
  have v0: "\<exists>m. vertical_mask k False = Inr m \<and> count_zeros m = (k div 2) * k"
    unfolding vertical_mask_plain [OF pos] b
    by (simp add: count_zeros_append count_zeros_Cons
        count_zeros_replicate_ones count_zeros_replicate_zeros)
  have h1: "\<exists>m. horizontal_mask k True = Inr m \<and> count_zeros m = k div 2 + 1"
    unfolding horizontal_mask_center [OF pos] b
    by (simp add: count_zeros_def)
  have h0: "\<exists>m. horizontal_mask k False = Inr m \<and> count_zeros m = k div 2"
    unfolding horizontal_mask_plain [OF pos] b
    by (simp add: count_zeros_def)
  from v1 v0 h1 h0 show ?thesis by blast
qed

theorem mask_zero_counts_witness:
  "odd (3::nat)
   \<and> (\<exists>m. vertical_mask 3 True = Inr m \<and> count_zeros m = (3 div 2 + 1) * 3)
   \<and> (\<exists>m. vertical_mask 3 False = Inr m \<and> count_zeros m = (3 div 2) * 3)
   \<and> (\<exists>m. horizontal_mask 3 True = Inr m \<and> count_zeros m = 3 div 2 + 1)
   \<and> (\<exists>m. horizontal_mask 3 False = Inr m \<and> count_zeros m = 3 div 2)"
proof -
  have h: "odd (3::nat)" by simp
  show ?thesis using h mask_zero_counts [OF h] by blast
qed

section \<open>Claim C5: order of the sampling loop and its skipping rule\<close>

text \<open>
  Claim C5. The sampler runs the body of its loop over the cells \<open>(h, w, c)\<close> of the
  requested shape, each once, in raster-then-channel order: the list of cells is strictly
  increasing in that order, rows outermost, then columns, then channels. A cell counts as
  filled exactly when every batch element holds a value other than -1 there; the body then
  returns the image, the model and the generator as they are. When the body returns at a
  cell where some batch element holds -1, it has run the forward pass on the image cropped
  to the rows up to the current one, drawn one value for each batch element and written
  the value drawn to every batch element at this cell, leaving every other cell as it was.
\<close>

theorem sample_order_and_skip:
  "(\<exists>ps. sorted_wrt precedes ps \<and> set ps = {(h, w, c). h < H \<and> w < W \<and> c < C} \<and>
        sample draw net (B, C, H, W) g img =
          for_each (\<lambda>(h, w, c). sample_cell draw h w c) ps
            (case img of None \<Rightarrow> empty_image (B, C, H, W) | Some im \<Rightarrow> im, net, g))
   \<and> (all_filled im c h w \<longleftrightarrow> (\<forall>b<dimB im. elem im b c h w \<noteq> - 1))
   \<and> (c < dimC im \<and> h < dimH im \<and> w < dimW im \<and> all_filled im c h w
        \<longrightarrow> sample_cell draw h w c (im, n, g0) = (None, im, n, g0))
   \<and> (sample_cell draw h w c (im, n, g0) = (None, im', n', g') \<and> \<not> all_filled im c h w
        \<longrightarrow> (\<exists>pred vals.
               forward n (crop_rows im (h + 1)) = (Inr pred, n') \<and>
               multinomial draw g0 (cell_probs pred c h w) = (vals, g') \<and>
               length vals = dimB im \<and>
               (\<forall>b<dimB im. elem im' b c h w = int (vals ! b)) \<and>
               (\<forall>b c' h' w'. (c', h', w') \<noteq> (c, h, w)
                  \<longrightarrow> elem im' b c' h' w' = elem im b c' h' w')))"
proof (intro conjI impI)
  show "\<exists>ps. sorted_wrt precedes ps \<and> set ps = {(h, w, c). h < H \<and> w < W \<and> c < C} \<and>
        sample draw net (B, C, H, W) g img =
          for_each (\<lambda>(h, w, c). sample_cell draw h w c) ps
            (case img of None \<Rightarrow> empty_image (B, C, H, W) | Some im \<Rightarrow> im, net, g)"
    using sorted_wrt_cells [of H W C] set_cells [of H W C] sample_flat [of draw net B C H W g img]
    by (intro exI [of _ "cells H W C"] conjI)
next
  show "all_filled im c h w \<longleftrightarrow> (\<forall>b<dimB im. elem im b c h w \<noteq> - 1)"
    by (rule all_filled_iff)
next
  assume "c < dimC im \<and> h < dimH im \<and> w < dimW im \<and> all_filled im c h w"
  then show "sample_cell draw h w c (im, n, g0) = (None, im, n, g0)"
    by (intro sample_cell_skip) simp_all
next
  assume "sample_cell draw h w c (im, n, g0) = (None, im', n', g') \<and> \<not> all_filled im c h w"
  then have a: "sample_cell draw h w c (im, n, g0) = (None, im', n', g')" "\<not> all_filled im c h w"
    by simp_all
  from sample_cell_cases [OF a] obtain pred vals where
    r: "forward n (crop_rows im (h + 1)) = (Inr pred, n')"
    "multinomial draw g0 (cell_probs pred c h w) = (vals, g')"
    "length vals = dimB im" and im': "im' = write_cell im c h w vals"
    by (elim exE conjE)
  have "\<forall>b<dimB im. elem im' b c h w = int (vals ! b)"
    by (simp add: im')
  moreover have "\<forall>b c' h' w'. (c', h', w') \<noteq> (c, h, w)
                  \<longrightarrow> elem im' b c' h' w' = elem im b c' h' w'"
    by (simp add: im')
  ultimately show "\<exists>pred vals.
               forward n (crop_rows im (h + 1)) = (Inr pred, n') \<and>
               multinomial draw g0 (cell_probs pred c h w) = (vals, g') \<and>
               length vals = dimB im \<and>
               (\<forall>b<dimB im. elem im' b c h w = int (vals ! b)) \<and>
               (\<forall>b c' h' w'. (c', h', w') \<noteq> (c, h, w)
                  \<longrightarrow> elem im' b c' h' w' = elem im b c' h' w')"
    using r by (intro exI [of _ pred] exI [of _ vals] conjI)
qed

theorem sample_order_and_skip_witness:
  "\<exists>net im' n' g'.
     PixelCNN 1 1 unit_init = Inr net \<and>
     (0 < dimC (image2x2 0) \<and> 0 < dimH (image2x2 0) \<and> 0 < dimW (image2x2 0)
        \<and> all_filled (image2x2 0) 0 0 0) \<and>
     sample_cell first_class 0 0 0 (image2x2 0, net, 0) = (None, image2x2 0, net, 0) \<and>
     (sample_cell first_class 1 1 0 (image2x2 (- 1), net, 0) = (None, im', n', g')
        \<and> \<not> all_filled (image2x2 (- 1)) 0 1 1) \<and>
     (\<exists>pred vals.
        forward net (crop_rows (image2x2 (- 1)) (1 + 1)) = (Inr pred, n') \<and>
        multinomial first_class 0 (cell_probs pred 0 1 1) = (vals, g') \<and>
        length vals = dimB (image2x2 (- 1)) \<and>
        (\<forall>b<dimB (image2x2 (- 1)). elem im' b 0 1 1 = int (vals ! b)) \<and>
        (\<forall>b c' h' w'. (c', h', w') \<noteq> (0, 1, 1)
           \<longrightarrow> elem im' b c' h' w' = elem (image2x2 (- 1)) b c' h' w'))"
proof -
  from PixelCNN_total obtain net where net: "PixelCNN 1 1 unit_init = Inr net"
    and pm: "pixel_model 1 1 net"
    by blast
  have skip: "0 < dimC (image2x2 0) \<and> 0 < dimH (image2x2 0) \<and> 0 < dimW (image2x2 0)
        \<and> all_filled (image2x2 0) 0 0 0"
    by (simp add: image2x2_def all_filled_iff)
  have nf: "\<not> all_filled (image2x2 (- 1)) 0 1 1"
    by (simp add: image2x2_def all_filled_iff)
  have d: "dims4 (image2x2 (- 1)) = (1, 1, 2, 2)"
    by (simp add: image2x2_def dims4_def)
  have p: "(0::nat) < 1" "(1::nat) < 2" by simp_all
  from sample_cell_draw [OF pm zero_less_one d p(1) p(2) p(2) nf, of first_class 0]
  obtain im' n' g' where
    run: "sample_cell first_class 1 1 0 (image2x2 (- 1), net, 0) = (None, im', n', g')"
    by (elim exE conjE)
  note T1 = sample_order_and_skip [where im = "image2x2 0" and c = 0 and h = 0 and w = 0
      and draw = first_class and n = net and ?g0.0 = 0]
  note T2 = sample_order_and_skip [where im = "image2x2 (- 1)" and c = 0 and h = 1 and w = 1
      and draw = first_class and n = net and ?g0.0 = 0 and im' = im' and n' = n' and g' = g']
  from T1 [THEN conjunct2, THEN conjunct2, THEN conjunct1, THEN mp, OF skip]
  have r1: "sample_cell first_class 0 0 0 (image2x2 0, net, 0) = (None, image2x2 0, net, 0)" .
  from run nf have h2: "sample_cell first_class 1 1 0 (image2x2 (- 1), net, 0) = (None, im', n', g')
        \<and> \<not> all_filled (image2x2 (- 1)) 0 1 1"
    by (rule conjI)
  note r2 = T2 [THEN conjunct2, THEN conjunct2, THEN conjunct2, THEN mp, OF h2]
  from net skip r1 h2 r2 show ?thesis
    by - (assumption | rule exI conjI | erule conjE)+
qed

section \<open>Claim C6: the sampled image is complete\<close>

text \<open>
  Claim C6. For a model built by the constructor, a sound sampler, every shape
  \<open>(B, C, H, W)\<close> whose channel count is that of the model, and every seed image that is
  absent or has this shape and holds only the sentinel -1 and intensities between 0 and
  255, the sampler returns an image of this shape all of whose entries lie between 0 and
  255: no sentinel remains.
\<close>

theorem sample_fills_image:
  assumes net: "PixelCNN c_in c_hidden init = Inr net" and ch: "0 < c_hidden"
    and ok: "sampler_ok draw"
    and seed: "case img of None \<Rightarrow> True
               | Some im \<Rightarrow> dims4 im = (B, c_in, H, W) \<and> seed_image im"
  shows "\<exists>img' net' g'.
           sample draw net (B, c_in, H, W) g img = (None, img', net', g') \<and>
           dims4 img' = (B, c_in, H, W) \<and> filled_image img'"
proof -
  note pm = PixelCNN_pixel_model [OF net]
  let ?img = "case img of None \<Rightarrow> empty_image (B, c_in, H, W) | Some im \<Rightarrow> im"
  from seed have "dims4 ?img = (B, c_in, H, W)" "seed_image ?img"
    by (auto simp: empty_image_seed split: option.splits)
  from sample_establishes [OF ok pm ch this] show ?thesis
    unfolding sample_flat .
qed

theorem sample_fills_image_witness:
  "\<exists>net img' net' g'.
     PixelCNN 1 1 unit_init = Inr net \<and> sampler_ok first_class \<and>
     dims4 (image2x2 (- 1)) = (1, 1, 2, 2) \<and> seed_image (image2x2 (- 1)) \<and>
     sample first_class net (1, 1, 2, 2) 0 (Some (image2x2 (- 1))) = (None, img', net', g') \<and>
     dims4 img' = (1, 1, 2, 2) \<and> filled_image img'"
proof -
  from PixelCNN_total obtain net where net: "PixelCNN 1 1 unit_init = Inr net"
    by blast
  have d: "dims4 (image2x2 (- 1)) = (1, 1, 2, 2)" "seed_image (image2x2 (- 1))"
    by (simp_all add: image2x2_def dims4_def seed_image_def)
  then have seed: "case Some (image2x2 (- 1)) of None \<Rightarrow> True
               | Some im \<Rightarrow> dims4 im = (1, 1, 2, 2) \<and> seed_image im"
    by simp
  from sample_fills_image [OF net zero_less_one sampler_ok_first_class seed, of 0]
  obtain img' net' g' where
    "sample first_class net (1, 1, 2, 2) 0 (Some (image2x2 (- 1))) = (None, img', net', g')"
    "dims4 img' = (1, 1, 2, 2)" "filled_image img'"
    by (elim exE conjE)
  with net sampler_ok_first_class d show ?thesis
    by - (rule exI conjI | assumption)+
qed

section \<open>Claim C7: likelihood in bits per dimension\<close>

text \<open>
  Claim C7. For a model built by the constructor and a non-empty batch of images with the
  model's channel count whose entries are intensities between 0 and 255, the likelihood is
  a number: it is the batch mean over the images of the per-image mean, across channel,
  height and width, of the cross-entropy between the logits of the forward pass and the
  targets, multiplied by \<open>log 2 e\<close>, and it is not negative.
\<close>

theorem likelihood_bits_per_dim:
  assumes net: "PixelCNN c_in c_hidden init = Inr net" and ch: "0 < c_hidden"
    and x: "dims4 x = (B, c_in, H, W)"
    and pos: "0 < B" "0 < c_in" "0 < H" "0 < W"
    and valid: "filled_image x"
  shows "\<exists>pred n v n'.
           forward net x = (Inr pred, n) \<and> calc_likelihood net x = (Inr (Some v), n') \<and>
           v = likelihood_spec pred x \<and> 0 \<le> v"
  by (rule calc_likelihood_value [OF assms])

theorem likelihood_bits_per_dim_witness:
  "\<exists>net pred n v n'.
     PixelCNN 1 1 unit_init = Inr net \<and>
     dims4 (image2x2 255) = (1, 1, 2, 2) \<and> filled_image (image2x2 255) \<and>
     forward net (image2x2 255) = (Inr pred, n) \<and>
     calc_likelihood net (image2x2 255) = (Inr (Some v), n') \<and>
     v = likelihood_spec pred (image2x2 255) \<and> 0 \<le> v"
proof -
  from PixelCNN_total obtain net where net: "PixelCNN 1 1 unit_init = Inr net"
    by blast
  have d: "dims4 (image2x2 255) = (1, 1, 2, 2)" and v: "filled_image (image2x2 255)"
    by (simp_all add: image2x2_def dims4_def filled_image_def)
  have p: "(0::nat) < 1" "(0::nat) < 2" by simp_all
  from likelihood_bits_per_dim [OF net zero_less_one d p(1) p(1) p(2) p(2) v]
  obtain pred n v n' where
    "forward net (image2x2 255) = (Inr pred, n)"
    "calc_likelihood net (image2x2 255) = (Inr (Some v), n')"
    "v = likelihood_spec pred (image2x2 255)" "0 \<le> v"
    by (elim exE conjE)
  with net d v show ?thesis
    by - (assumption | rule exI conjI)+
qed

section \<open>Claim C8: pixel values are not validated\<close>

text \<open>
  Claim C8, as amended. The forward pass and the sampler check no pixel value. For a model
  built by the constructor with at least one input and one hidden channel, and an image
  with the model's channel count and at least one row and one column, whatever integers
  the image holds, the forward pass returns logits, and the sampler given the image as its
  seed returns an image of the same shape. In the image returned, every cell at which the
  seed holds a value other than -1 in every batch element holds the values of the seed,
  whether or not they are intensities.
\<close>

theorem pixel_values_unchecked:
  assumes net: "PixelCNN c_in c_hidden init = Inr net" and ch: "0 < c_hidden" and ci: "0 < c_in"
    and x: "dims4 x = (B, c_in, H, W)" and H: "0 < H" and W: "0 < W"
  shows "(\<exists>out n. forward net x = (Inr out, n)) \<and>
         (\<exists>img' n g'.
            sample draw net (B, c_in, H, W) g (Some x) = (None, img', n, g') \<and>
            dims4 img' = (B, c_in, H, W) \<and>
            (\<forall>c<c_in. \<forall>h<H. \<forall>w<W.
               (\<forall>b<B. elem x b c h w \<noteq> - 1) \<longrightarrow> (\<forall>b<B. elem img' b c h w = elem x b c h w)))"
proof
  note pm = PixelCNN_pixel_model [OF net]
  from forward_ok [OF pm ch ci x H W] show "\<exists>out n. forward net x = (Inr out, n)"
    by blast
  from sample_keeps_filled [OF pm ch x, of draw g] obtain img' n g' where
    s: "for_each (\<lambda>(h, w, c). sample_cell draw h w c) (cells H W c_in) (x, net, g)
          = (None, img', n, g')"
    and d: "dims4 img' = (B, c_in, H, W)"
    and k: "\<forall>c h w. all_filled x c h w \<longrightarrow> (\<forall>b. elem img' b c h w = elem x b c h w)"
    by (elim exE conjE)
  from x have B: "dimB x = B" by (simp add: dims4_def)
  have "\<forall>c<c_in. \<forall>h<H. \<forall>w<W.
          (\<forall>b<B. elem x b c h w \<noteq> - 1) \<longrightarrow> (\<forall>b<B. elem img' b c h w = elem x b c h w)"
    using k by (simp add: all_filled_iff B)
  moreover from s have "sample draw net (B, c_in, H, W) g (Some x) = (None, img', n, g')"
    unfolding sample_flat by simp
  ultimately
  show "\<exists>img' n g'.
            sample draw net (B, c_in, H, W) g (Some x) = (None, img', n, g') \<and>
            dims4 img' = (B, c_in, H, W) \<and>
            (\<forall>c<c_in. \<forall>h<H. \<forall>w<W.
               (\<forall>b<B. elem x b c h w \<noteq> - 1) \<longrightarrow> (\<forall>b<B. elem img' b c h w = elem x b c h w))"
    using d by (intro exI [of _ img'] exI [of _ n] exI [of _ g'] conjI)
qed

theorem pixel_values_unchecked_witness:
  "\<exists>net. PixelCNN 1 1 unit_init = Inr net \<and> dims4 (image2x2 300) = (1, 1, 2, 2) \<and>
     elem (image2x2 300) 0 0 1 1 = 300 \<and>
     (\<exists>out n. forward net (image2x2 300) = (Inr out, n)) \<and>
     (\<exists>img' n g'.
        sample first_class net (1, 1, 2, 2) 0 (Some (image2x2 300)) = (None, img', n, g') \<and>
        dims4 img' = (1, 1, 2, 2) \<and> elem img' 0 0 1 1 = 300)"
proof -
  from PixelCNN_total obtain net where net: "PixelCNN 1 1 unit_init = Inr net"
    by blast
  have d: "dims4 (image2x2 300) = (1, 1, 2, 2)" and e: "elem (image2x2 300) 0 0 1 1 = 300"
    by (simp_all add: image2x2_def dims4_def)
  have p: "(0::nat) < 2" by simp
  note T = pixel_values_unchecked [OF net zero_less_one zero_less_one d p p, of first_class 0]
  from T [THEN conjunct2] obtain img' n g' where
    s: "sample first_class net (1, 1, 2, 2) 0 (Some (image2x2 300)) = (None, img', n, g')"
    and di: "dims4 img' = (1, 1, 2, 2)"
    and k: "\<forall>c<1. \<forall>h<2. \<forall>w<2.
               (\<forall>b<1. elem (image2x2 300) b c h w \<noteq> - 1)
               \<longrightarrow> (\<forall>b<1. elem img' b c h w = elem (image2x2 300) b c h w)"
    by (elim exE conjE)
  have "\<forall>b<1. elem (image2x2 300) b 0 1 1 \<noteq> - 1" by (simp add: image2x2_def)
  with k have "\<forall>b<1. elem img' b 0 1 1 = elem (image2x2 300) b 0 1 1" by simp
  with e have e': "elem img' 0 0 1 1 = 300" by simp
  from s di e' have r: "\<exists>img' n g'.
        sample first_class net (1, 1, 2, 2) 0 (Some (image2x2 300)) = (None, img', n, g') \<and>
        dims4 img' = (1, 1, 2, 2) \<and> elem img' 0 0 1 1 = 300"
    by - (assumption | rule exI conjI)+
  from net d e T [THEN conjunct1] r show ?thesis
    by - (assumption | rule exI conjI)+
qed

text \<open>
  Claim C8, as stated, fails: on an image that holds the value 300 the forward pass returns
  logits, and the sampler seeded with this image returns an image that still holds 300.
\<close>

theorem invalid_pixel_accepted:
  "\<not> isl (PixelCNN 1 1 unit_init) \<and>
   elem (image2x2 300) 0 0 1 1 = 300 \<and>
   \<not> isl (fst (forward (projr (PixelCNN 1 1 unit_init)) (image2x2 300))) \<and>
   fst (sample first_class (projr (PixelCNN 1 1 unit_init)) (1, 1, 2, 2) 0
          (Some (image2x2 300))) = None \<and>
   elem (fst (snd (sample first_class (projr (PixelCNN 1 1 unit_init)) (1, 1, 2, 2) 0
          (Some (image2x2 300))))) 0 0 1 1 = 300"
proof -
  from PixelCNN_total obtain net where net: "PixelCNN 1 1 unit_init = Inr net"
    and pm: "pixel_model 1 1 net"
    by blast
  have d: "dims4 (image2x2 300) = (1, 1, 2, 2)" and e: "elem (image2x2 300) 0 0 1 1 = 300"
    by (simp_all add: image2x2_def dims4_def)
  have p: "(0::nat) < 2" by simp
  from forward_ok [OF pm zero_less_one zero_less_one d p p] obtain out where
    f: "forward net (image2x2 300) = (Inr out, mask_net net)"
    by (elim exE conjE)
  have "\<forall>a\<in>set (cells 2 2 1).
          (\<lambda>(h, w, c). sample_cell first_class h w c) a (image2x2 300, net, 0)
            = (None, image2x2 300, net, 0)"
  proof
    fix a assume a: "a \<in> set (cells 2 2 1)"
    obtain h w c where [simp]: "a = (h, w, c)" by (cases a)
    from a have "h < 2" "w < 2" "c < 1" by (simp_all add: set_cells)
    then have "sample_cell first_class h w c (image2x2 300, net, 0) = (None, image2x2 300, net, 0)"
      by (intro sample_cell_skip) (simp_all add: image2x2_def all_filled_iff)
    then show "(\<lambda>(h, w, c). sample_cell first_class h w c) a (image2x2 300, net, 0)
            = (None, image2x2 300, net, 0)" by simp
  qed
  from for_each_fixed [of "cells 2 2 1" "\<lambda>(h, w, c). sample_cell first_class h w c"
      "(image2x2 300, net, 0)", OF this]
  have s: "sample first_class net (1, 1, 2, 2) 0 (Some (image2x2 300))
           = (None, image2x2 300, net, 0)"
    unfolding sample_flat by simp
  from net f s e show ?thesis by simp
qed

section \<open>Claim C10: masking twice\<close>

text \<open>
  Claim C10. For a mask of zeros and ones, masking a masked weight gives the masked weight
  again. Hence, when an application of a masked convolution returns, a second application
  to the same input returns the same output, and every further application, to whatever
  input and whether it returns or raises, leaves the layer, and with it the stored weight,
  as the first one left it.
\<close>

theorem masking_idempotent:
  assumes bin: "binary_mask (mask_buffer L)"
    and run: "MaskedConvolution_forward L x = (Inr y, L')"
  shows "masked_weight
           (masked_weight w (mask_buffer L) (kernel_h (conv L)) (kernel_w (conv L)))
           (mask_buffer L) (kernel_h (conv L)) (kernel_w (conv L))
         = masked_weight w (mask_buffer L) (kernel_h (conv L)) (kernel_w (conv L))
       \<and> MaskedConvolution_forward L' x = (Inr y, L')
       \<and> (\<forall>x2 r2 L2. MaskedConvolution_forward L' x2 = (r2, L2) \<longrightarrow> L2 = L')"
proof -
  note c = MaskedConvolution_forward_cases [OF run]
  have idem: "mul_mask L' = L'"
    unfolding c(2) by (rule mul_mask_idem [OF bin c(1)])
  have "MaskedConvolution_forward L' x = (Inr y, L')"
    using c(1,3) by (simp add: MaskedConvolution_forward_def Let_def idem) (simp add: c(2))
  moreover have "\<forall>x2 r2 L2. MaskedConvolution_forward L' x2 = (r2, L2) \<longrightarrow> L2 = L'"
    using idem c(1) by (simp add: MaskedConvolution_forward_def Let_def c(2))
  moreover note masked_weight_idem [OF bin c(1), of w]
  ultimately show ?thesis by simp
qed

theorem masking_idempotent_witness:
  "binary_mask (mask_buffer example_layer) \<and>
   (\<exists>y L'. MaskedConvolution_forward example_layer feature2x2 = (Inr y, L') \<and>
      MaskedConvolution_forward L' feature2x2 = (Inr y, L') \<and>
      (\<forall>x2 r2 L2. MaskedConvolution_forward L' x2 = (r2, L2) \<longrightarrow> L2 = L'))"
proof -
  have bin: "binary_mask (mask_buffer example_layer)"
    by (simp add: example_layer_def MaskedConvolution_shape binary_mask_def shape1_def)
  note T = masking_idempotent [OF bin example_layer_forward]
  from bin example_layer_forward T [THEN conjunct2, THEN conjunct1]
    T [THEN conjunct2, THEN conjunct2]
  show ?thesis
    by - (assumption | rule exI conjI)+
qed

end
